theory Spec2Isabelle
  imports Main "HOL-Library.AList"
begin

section \<open>Data model of the task board (advanced\_task\_board.py)\<close>

text \<open>
  The seven lifecycle states of \<^verbatim>\<open>TaskStatus\<close>.
\<close>

datatype TaskStatus =
    WAITING | IN_PROGRESS | PENDING_REVIEW | REWORK_NEEDED | COMPLETE | STALLED | ABANDONED

text \<open>
  Python values that the board stores without looking inside them: the \<^verbatim>\<open>output\<close> of a
  task (\<^verbatim>\<open>Optional[Any]\<close>) and the values of a feedback dictionary
  (\<^verbatim>\<open>Dict[str, Any]\<close>). A dictionary keeps its insertion order, so it is an
  association list.
\<close>

datatype pyval = PyNone | PyBool bool | PyStr string | PyDict "(string \<times> pyval) list"

text \<open>Truth value of a Python object, as \<^verbatim>\<open>if not dep_task.output\<close> tests it.\<close>

fun truthy :: "pyval \<Rightarrow> bool" where
  "truthy PyNone = False"
| "truthy (PyBool b) = b"
| "truthy (PyStr v) = (v \<noteq> [])"
| "truthy (PyDict d) = (d \<noteq> [])"

text \<open>
  The exceptions the manager raises itself, and the built-in ones its statements raise:
  \<^verbatim>\<open>KeyError\<close> (a missing dictionary key), \<^verbatim>\<open>TypeError\<close> (item assignment
  on an object that is no dictionary), \<^verbatim>\<open>AttributeError\<close> (a method the object
  does not have), \<^verbatim>\<open>RecursionError\<close> (the interpreter's bound on nested calls).
\<close>

datatype error =
    KeyError | ValueError | CircularDependencyError | InvalidTransitionError | StateError
  | TypeError | AttributeError | RecursionError

text \<open>
  \<^verbatim>\<open>TaskBoardEntry\<close>. The fields \<^verbatim>\<open>id\<close> and \<^verbatim>\<open>output\<close> are called
  \<open>id_str\<close> and \<open>output_val\<close> here. The fields
  \<^verbatim>\<open>history\<close> and \<^verbatim>\<open>last_updated\<close> are left out: the operations below only
  copy the first into event payloads and only write the wall clock into the second.
\<close>

record TaskBoardEntry =
  id_str :: string
  description :: string
  dependencies :: "string list"
  status :: TaskStatus
  verification_feedback :: "(string \<times> pyval) list list"
  output_val :: pyval
  priority :: int
  max_iterations :: int
  current_iterations :: int
  assigned_agent :: "string option"

text \<open>
  \<^verbatim>\<open>TaskBoardEvent\<close>: the event type and the task it is about. The data payload and the
  timestamp are not modelled.
\<close>

record TaskBoardEvent =
  event_type :: string
  task_id :: string

text \<open>
  \<^verbatim>\<open>TaskBoardManager\<close>. Both dictionaries are association lists in insertion order
  (the order in which Python iterates them); a \<^verbatim>\<open>Set[str]\<close> of the dependency graph is
  a list without duplicates. \<open>event_stream\<close> is \<open>None\<close> while no stream is attached and
  otherwise holds the events emitted so far. The priority queue is kept sorted by
  \<^verbatim>\<open>(priority, task_id)\<close>, so that the head is what \<^verbatim>\<open>heapq.heappop\<close> returns.
\<close>

record TaskBoardManager =
  tasks :: "(string \<times> TaskBoardEntry) list"
  event_stream :: "TaskBoardEvent list option"
  dependency_graph :: "(string \<times> string list) list"
  priority_queue :: "(int \<times> string) list"
  feedback_threshold :: int
  escalation_agent :: string

text \<open>The result of an operation: the exception raised or the value returned, and the
  state the manager is left in.\<close>

type_synonym 'a outcome = "(error + 'a) \<times> TaskBoardManager"

text \<open>\<^verbatim>\<open>VALID_TRANSITIONS.get(old_status, set())\<close>: the table has no entry for
  \<^verbatim>\<open>COMPLETE\<close> and \<^verbatim>\<open>ABANDONED\<close>.\<close>

fun VALID_TRANSITIONS :: "TaskStatus \<Rightarrow> TaskStatus list" where
  "VALID_TRANSITIONS WAITING = [IN_PROGRESS, ABANDONED]"
| "VALID_TRANSITIONS IN_PROGRESS = [PENDING_REVIEW, STALLED]"
| "VALID_TRANSITIONS PENDING_REVIEW = [COMPLETE, REWORK_NEEDED]"
| "VALID_TRANSITIONS REWORK_NEEDED = [IN_PROGRESS, ABANDONED]"
| "VALID_TRANSITIONS STALLED = [IN_PROGRESS, ABANDONED]"
| "VALID_TRANSITIONS COMPLETE = []"
| "VALID_TRANSITIONS ABANDONED = []"

section \<open>Helpers for statements of the manager\<close>

text \<open>A field assignment \<^verbatim>\<open>task.f = v\<close> on the entry stored under \<open>tid\<close>.\<close>

definition modify_task :: "string \<Rightarrow> (TaskBoardEntry \<Rightarrow> TaskBoardEntry) \<Rightarrow> TaskBoardManager \<Rightarrow> TaskBoardManager" where
  "modify_task tid f s = s\<lparr>tasks := AList.map_entry tid f (tasks s)\<rparr>"

text \<open>A \<^verbatim>\<open>for\<close> loop whose body may raise: the first exception ends it.\<close>

fun for_each :: "'x list \<Rightarrow> ('x \<Rightarrow> TaskBoardManager \<Rightarrow> unit outcome) \<Rightarrow> TaskBoardManager \<Rightarrow> unit outcome" where
  "for_each [] body s = (Inr (), s)"
| "for_each (x # xs) body s =
     (case body x s of (Inl e, s') \<Rightarrow> (Inl e, s') | (Inr u, s') \<Rightarrow> for_each xs body s')"

text \<open>\<^verbatim>\<open>obj[key] = value\<close>: a dictionary takes the item, anything else raises.\<close>

fun setitem :: "pyval \<Rightarrow> string \<Rightarrow> pyval \<Rightarrow> error + pyval" where
  "setitem (PyDict d) k v = Inr (PyDict (AList.update k v d))"
| "setitem other k v = Inl TypeError"

section \<open>Operations of TaskBoardManager (advanced\_task\_board\_manager.py)\<close>

text \<open>
  \<^verbatim>\<open>emit_task_event\<close> does nothing while no stream is attached. The method
  \<^verbatim>\<open>emit\<close> of an attached stream belongs to the event sink, which is outside the
  manager: it is taken to append the event to the log of the stream and to return.
\<close>

definition emit_task_event :: "string \<Rightarrow> string \<Rightarrow> TaskBoardManager \<Rightarrow> TaskBoardManager" where
  "emit_task_event tid ty s =
     (case event_stream s of
        None \<Rightarrow> s
      | Some evs \<Rightarrow> s\<lparr>event_stream := Some (evs @ [\<lparr>event_type = ty, task_id = tid\<rparr>])\<rparr>)"

definition get_blocked_tasks :: "string \<Rightarrow> TaskBoardManager \<Rightarrow> error + string list" where
  "get_blocked_tasks tid s =
     (if map_of (tasks s) tid = None then Inl KeyError
      else Inr (map fst (filter (\<lambda>(other_id, deps). tid \<in> set deps) (dependency_graph s))))"

text \<open>The loop of \<^verbatim>\<open>check_dependencies\<close> over one dependency set.\<close>

fun all_complete :: "string list \<Rightarrow> TaskBoardManager \<Rightarrow> error + bool" where
  "all_complete [] s = Inr True"
| "all_complete (dep_id # rest) s =
     (case map_of (tasks s) dep_id of
        None \<Rightarrow> Inl KeyError
      | Some dep_task \<Rightarrow> if status dep_task \<noteq> COMPLETE then Inr False else all_complete rest s)"

definition check_dependencies :: "string \<Rightarrow> TaskBoardManager \<Rightarrow> error + bool" where
  "check_dependencies tid s =
     (if map_of (tasks s) tid = None then Inl KeyError
      else case map_of (dependency_graph s) tid of
             None \<Rightarrow> Inl KeyError
           | Some deps \<Rightarrow> all_complete deps s)"

text \<open>The list \<^verbatim>\<open>failed_deps\<close> that \<^verbatim>\<open>handle_partial_failure\<close> collects.\<close>

fun failed_dependencies :: "string list \<Rightarrow> TaskBoardManager \<Rightarrow> error + string list" where
  "failed_dependencies [] s = Inr []"
| "failed_dependencies (dep_id # rest) s =
     (case map_of (tasks s) dep_id of
        None \<Rightarrow> Inl KeyError
      | Some dep_task \<Rightarrow>
          (case failed_dependencies rest s of
             Inl e \<Rightarrow> Inl e
           | Inr fs \<Rightarrow> Inr (if status dep_task = ABANDONED \<or> status dep_task = STALLED
                             then dep_id # fs else fs)))"

text \<open>
  \<^verbatim>\<open>update_task_status\<close> calls itself through its status-specific branches. Each
  branch is written first as a function of the transition entry point \<open>upd\<close> it calls
  back; \<^verbatim>\<open>update_task_status\<close> then ties the knot by recursion on a bound on the depth
  of the nested calls. A call with the bound used up raises \<^verbatim>\<open>RecursionError\<close>.
\<close>

type_synonym transition = "string \<Rightarrow> TaskStatus \<Rightarrow> string \<Rightarrow> TaskBoardManager \<Rightarrow> unit outcome"

text \<open>The body of the loop over blocked tasks in the \<^verbatim>\<open>COMPLETE\<close> branch.\<close>

definition propagate_result :: "transition \<Rightarrow> string \<Rightarrow> string \<Rightarrow> TaskBoardManager \<Rightarrow> unit outcome" where
  "propagate_result upd tid dep_task_id sx =
     (case map_of (tasks sx) dep_task_id of
        None \<Rightarrow> (Inl KeyError, sx)
      | Some dep_task \<Rightarrow>
          let sy = (if \<not> truthy (output_val dep_task)
                    then modify_task dep_task_id (\<lambda>t. t\<lparr>output_val := PyDict []\<rparr>) sx
                    else sx) in
          (case (map_of (tasks sy) dep_task_id, map_of (tasks sy) tid) of
             (Some dt, Some tk) \<Rightarrow>
               (case setitem (output_val dt) tid (output_val tk) of
                  Inl e \<Rightarrow> (Inl e, sy)
                | Inr out \<Rightarrow>
                    let sz = modify_task dep_task_id (\<lambda>t. t\<lparr>output_val := out\<rparr>) sy in
                    (case check_dependencies dep_task_id sz of
                       Inl e \<Rightarrow> (Inl e, sz)
                     | Inr ok \<Rightarrow>
                         if ok then upd dep_task_id IN_PROGRESS ''All dependencies complete'' sz
                         else (Inr (), sz)))
           | other \<Rightarrow> (Inl KeyError, sy)))"

definition handle_partial_failure_via :: "transition \<Rightarrow> string \<Rightarrow> TaskBoardManager \<Rightarrow> unit outcome" where
  "handle_partial_failure_via upd tid s =
     (case map_of (tasks s) tid of
        None \<Rightarrow> (Inl KeyError, s)
      | Some task \<Rightarrow>
          (case failed_dependencies (dependencies task) s of
             Inl e \<Rightarrow> (Inl e, s)
           | Inr failed_deps \<Rightarrow>
               if failed_deps \<noteq> [] then
                 upd tid STALLED ''Dependencies failed''
                   (emit_task_event tid ''DEPENDENCY_RECOVERY_NEEDED'' s)
               else (Inr (), s)))"

definition escalate_task_via :: "transition \<Rightarrow> string \<Rightarrow> string \<Rightarrow> TaskBoardManager \<Rightarrow> unit outcome" where
  "escalate_task_via upd tid reason s =
     (case map_of (tasks s) tid of
        None \<Rightarrow> (Inl KeyError, s)
      | Some task \<Rightarrow> upd tid STALLED reason (emit_task_event tid ''TASK_ESCALATED'' s))"

text \<open>
  The status-specific logic of \<^verbatim>\<open>update_task_status\<close>, run after the status is
  written. The \<^verbatim>\<open>ABANDONED\<close> branch calls \<^verbatim>\<open>self.propagate_status\<close>;
  neither \<^verbatim>\<open>TaskBoardManager\<close>, which has no base class, nor any other file
  defines a method of that name, so the attribute lookup raises \<^verbatim>\<open>AttributeError\<close>.
\<close>

definition status_logic :: "transition \<Rightarrow> string \<Rightarrow> TaskStatus \<Rightarrow> string \<Rightarrow> TaskBoardManager \<Rightarrow> unit outcome" where
  "status_logic upd tid new_status reason s1 =
     (if new_status = COMPLETE then
        (case get_blocked_tasks tid s1 of
           Inl e \<Rightarrow> (Inl e, s1)
         | Inr blocked \<Rightarrow> for_each blocked (propagate_result upd tid) s1)
      else if new_status = ABANDONED then (Inl AttributeError, s1)
      else if new_status = STALLED then handle_partial_failure_via upd tid s1
      else if new_status = REWORK_NEEDED then
        (let s2 = modify_task tid (\<lambda>t. t\<lparr>current_iterations := current_iterations t + 1\<rparr>) s1 in
         case map_of (tasks s2) tid of
           None \<Rightarrow> (Inl KeyError, s2)
         | Some t2 \<Rightarrow>
             if current_iterations t2 \<ge> max_iterations t2
             then escalate_task_via upd tid ''Maximum iterations reached during rework'' s2
             else (Inr (), s2))
      else (Inr (), s1))"

text \<open>One call of \<^verbatim>\<open>update_task_status\<close>, its nested calls going to \<open>upd\<close>.\<close>

definition transition_step :: "transition \<Rightarrow> transition" where
  "transition_step upd tid new_status reason s =
     (case map_of (tasks s) tid of
        None \<Rightarrow> (Inl KeyError, s)
      | Some task \<Rightarrow>
          if new_status \<notin> set (VALID_TRANSITIONS (status task)) then (Inl InvalidTransitionError, s)
          else
            (case status_logic upd tid new_status reason
                    (modify_task tid (\<lambda>t. t\<lparr>status := new_status\<rparr>) s) of
               (Inl e, s') \<Rightarrow> (Inl e, s')
             | (Inr u, s') \<Rightarrow> (Inr (), emit_task_event tid ''STATUS_CHANGED'' s')))"

primrec update_task_status :: "nat \<Rightarrow> transition" where
  "update_task_status 0 = (\<lambda>tid new_status reason s. (Inl RecursionError, s))"
| "update_task_status (Suc n) = transition_step (update_task_status n)"

definition handle_partial_failure :: "nat \<Rightarrow> string \<Rightarrow> TaskBoardManager \<Rightarrow> unit outcome" where
  "handle_partial_failure n = handle_partial_failure_via (update_task_status n)"

definition escalate_task :: "nat \<Rightarrow> string \<Rightarrow> string \<Rightarrow> TaskBoardManager \<Rightarrow> unit outcome" where
  "escalate_task n = escalate_task_via (update_task_status n)"

text \<open>
  \<^verbatim>\<open>handle_status_transition\<close>, which no method of the manager calls; its
  \<^verbatim>\<open>ABANDONED\<close> branch is the cascade over the direct dependents. The argument
  \<^verbatim>\<open>old_status\<close> and the local \<^verbatim>\<open>blocked_task\<close> are read but not used.
\<close>

definition handle_status_transition :: "nat \<Rightarrow> string \<Rightarrow> TaskStatus \<Rightarrow> TaskStatus \<Rightarrow> TaskBoardManager \<Rightarrow> unit outcome" where
  "handle_status_transition n tid old_status new_status s =
     (case map_of (tasks s) tid of
        None \<Rightarrow> (Inl KeyError, s)
      | Some task \<Rightarrow>
          if new_status = COMPLETE then
            (case get_blocked_tasks tid s of
               Inl e \<Rightarrow> (Inl e, s)
             | Inr blocked_tasks \<Rightarrow>
                 for_each blocked_tasks (\<lambda>blocked_id sx.
                   case map_of (tasks sx) blocked_id of
                     None \<Rightarrow> (Inl KeyError, sx)
                   | Some blocked_task \<Rightarrow>
                       (case check_dependencies blocked_id sx of
                          Inl e \<Rightarrow> (Inl e, sx)
                        | Inr ok \<Rightarrow>
                            if ok then update_task_status n blocked_id IN_PROGRESS ''Dependencies completed'' sx
                            else (Inr (), sx))) s)
          else if new_status = ABANDONED then
            (case get_blocked_tasks tid s of
               Inl e \<Rightarrow> (Inl e, s)
             | Inr blocked_tasks \<Rightarrow>
                 for_each blocked_tasks (\<lambda>blocked_id.
                   update_task_status n blocked_id ABANDONED ''Dependency abandoned'') s)
          else (Inr (), s))"

text \<open>Iteration management.\<close>

definition handle_iteration_limit_reached :: "nat \<Rightarrow> string \<Rightarrow> TaskBoardManager \<Rightarrow> unit outcome" where
  "handle_iteration_limit_reached n tid s =
     (case map_of (tasks s) tid of
        None \<Rightarrow> (Inl KeyError, s)
      | Some task \<Rightarrow>
          if status task = REWORK_NEEDED
          then update_task_status n tid STALLED ''Maximum iterations reached during rework'' s
          else if status task = PENDING_REVIEW
          then update_task_status n tid STALLED ''Maximum iterations reached during review'' s
          else (Inr (), s))"

definition increment_iteration :: "nat \<Rightarrow> string \<Rightarrow> TaskBoardManager \<Rightarrow> unit outcome" where
  "increment_iteration n tid s =
     (case map_of (tasks s) tid of
        None \<Rightarrow> (Inl KeyError, s)
      | Some task0 \<Rightarrow>
          let s1 = modify_task tid (\<lambda>t. t\<lparr>current_iterations := current_iterations t + 1\<rparr>) s in
          (case map_of (tasks s1) tid of
             None \<Rightarrow> (Inl KeyError, s1)
           | Some task \<Rightarrow>
               (case (if current_iterations task \<ge> max_iterations task
                      then handle_iteration_limit_reached n tid s1 else (Inr (), s1)) of
                  (Inl e, s') \<Rightarrow> (Inl e, s')
                | (Inr u, s') \<Rightarrow> (Inr (), emit_task_event tid ''ITERATION_INCREMENTED'' s'))))"

text \<open>Verification. The \<^verbatim>\<open>timestamp\<close> items of the feedback dictionaries are left out.\<close>

definition request_verification :: "nat \<Rightarrow> string \<Rightarrow> TaskBoardManager \<Rightarrow> unit outcome" where
  "request_verification n tid s =
     (case map_of (tasks s) tid of
        None \<Rightarrow> (Inl KeyError, s)
      | Some task \<Rightarrow>
          let s1 = (if status task = REWORK_NEEDED
                    then modify_task tid (\<lambda>t. t\<lparr>verification_feedback := []\<rparr>) s else s) in
          (case update_task_status n tid PENDING_REVIEW ''Verification requested'' s1 of
             (Inl e, s') \<Rightarrow> (Inl e, s')
           | (Inr u, s') \<Rightarrow> (Inr (), emit_task_event tid ''VERIFICATION_REQUESTED'' s')))"

definition handle_verification_result :: "nat \<Rightarrow> string \<Rightarrow> bool \<Rightarrow> (string \<times> pyval) list \<Rightarrow> TaskBoardManager \<Rightarrow> unit outcome" where
  "handle_verification_result n tid passed feedback s =
     (case map_of (tasks s) tid of
        None \<Rightarrow> (Inl KeyError, s)
      | Some task \<Rightarrow>
          if status task \<noteq> PENDING_REVIEW then (Inl StateError, s)
          else
            let s1 = modify_task tid (\<lambda>t. t\<lparr>verification_feedback := verification_feedback t @
                        [[(''passed'', PyBool passed), (''feedback'', PyDict feedback)]]\<rparr>) s in
            if passed then update_task_status n tid COMPLETE ''Verification passed'' s1
            else
              (case increment_iteration n tid s1 of
                 (Inl e, s2) \<Rightarrow> (Inl e, s2)
               | (Inr u, s2) \<Rightarrow>
                   (case map_of (tasks s2) tid of
                      None \<Rightarrow> (Inl KeyError, s2)
                    | Some t2 \<Rightarrow>
                        if current_iterations t2 < max_iterations t2
                        then update_task_status n tid REWORK_NEEDED ''Verification failed'' s2
                        else (Inr (), s2))))"

text \<open>Feedback with conflict resolution. \<open>count_verdict v\<close> is
  \<^verbatim>\<open>sum(1 for f in task.verification_feedback if f.get("verdict") == v)\<close>.\<close>

definition count_verdict :: "string \<Rightarrow> (string \<times> pyval) list list \<Rightarrow> nat" where
  "count_verdict v fs = length (filter (\<lambda>f. map_of f ''verdict'' = Some (PyStr v)) fs)"

definition handle_feedback :: "nat \<Rightarrow> string \<Rightarrow> (string \<times> pyval) list \<Rightarrow> string \<Rightarrow> TaskBoardManager \<Rightarrow> unit outcome" where
  "handle_feedback n tid feedback source s =
     (case map_of (tasks s) tid of
        None \<Rightarrow> (Inl KeyError, s)
      | Some task0 \<Rightarrow>
          let s1 = modify_task tid (\<lambda>t. t\<lparr>verification_feedback := verification_feedback t @
                      [AList.update ''source'' (PyStr source) feedback]\<rparr>) s in
          (case map_of (tasks s1) tid of
             None \<Rightarrow> (Inl KeyError, s1)
           | Some task \<Rightarrow>
               let approve_count = count_verdict ''approve'' (verification_feedback task);
                   reject_count = count_verdict ''reject'' (verification_feedback task) in
               if approve_count > 0 \<and> reject_count > 0
                  \<and> int (length (verification_feedback task)) \<ge> feedback_threshold s1
               then escalate_task n tid ''Conflicting feedback'' s1
               else if approve_count > 0 \<and> reject_count = 0
               then update_task_status n tid COMPLETE ''Task approved'' s1
               else if reject_count > 0 \<and> approve_count = 0
               then update_task_status n tid REWORK_NEEDED ''Task needs rework'' s1
               else (Inr (), s1)))"

text \<open>
  The priority queue. \<^verbatim>\<open>heapq\<close> orders the tuples \<^verbatim>\<open>(priority, task_id)\<close>
  lexicographically, strings by code point. The queue is kept as the ascending list of its
  items: \<^verbatim>\<open>heappush\<close> inserts in order, \<^verbatim>\<open>heappop\<close> takes the head,
  \<^verbatim>\<open>heapify\<close> sorts.
\<close>

fun str_less :: "string \<Rightarrow> string \<Rightarrow> bool" where
  "str_less [] [] = False"
| "str_less [] (y # ys) = True"
| "str_less (x # xs) [] = False"
| "str_less (x # xs) (y # ys) = ((of_char x :: nat) < of_char y \<or> (x = y \<and> str_less xs ys))"

definition item_le :: "int \<times> string \<Rightarrow> int \<times> string \<Rightarrow> bool" where
  "item_le a b = (fst a < fst b \<or> (fst a = fst b \<and> (snd a = snd b \<or> str_less (snd a) (snd b))))"

fun heappush :: "int \<times> string \<Rightarrow> (int \<times> string) list \<Rightarrow> (int \<times> string) list" where
  "heappush x [] = [x]"
| "heappush x (y # ys) = (if item_le x y then x # y # ys else y # heappush x ys)"

definition heapify :: "(int \<times> string) list \<Rightarrow> (int \<times> string) list" where
  "heapify xs = foldr heappush xs []"

text \<open>
  \<^verbatim>\<open>add_task\<close>. \<open>add_task_with cyclic\<close> takes the truth value the statement
  \<^verbatim>\<open>if self.detect_circular_dependencies():\<close> finds for a graph as the function
  \<open>cyclic\<close>. In the source \<^verbatim>\<open>detect_circular_dependencies\<close> is declared
  \<^verbatim>\<open>async def\<close> and the call is not awaited, so the condition tests a coroutine
  object, which is true for every graph: this is \<open>add_task\<close>.
\<close>

definition add_task_with :: "((string \<times> string list) list \<Rightarrow> bool) \<Rightarrow> nat \<Rightarrow> TaskBoardEntry \<Rightarrow> TaskBoardManager \<Rightarrow> unit outcome" where
  "add_task_with cyclic n task s =
     (if map_of (tasks s) (id_str task) \<noteq> None then (Inl ValueError, s)
      else if \<exists>dep_id \<in> set (dependencies task). map_of (tasks s) dep_id = None then (Inl ValueError, s)
      else
        let s1 = s\<lparr>dependency_graph := AList.update (id_str task) (remdups (dependencies task)) (dependency_graph s)\<rparr> in
        if cyclic (dependency_graph s1)
        then (Inl CircularDependencyError, s1\<lparr>dependency_graph := AList.delete (id_str task) (dependency_graph s1)\<rparr>)
        else
          let s2 = s1\<lparr>tasks := AList.update (id_str task) task (tasks s1)\<rparr>;
              s3 = s2\<lparr>priority_queue := heappush (priority task, id_str task) (priority_queue s2)\<rparr>;
              initial_status = (if dependencies task \<noteq> [] then WAITING else IN_PROGRESS) in
          (case update_task_status n (id_str task) initial_status ''Task initialized'' s3 of
             (Inl e, s') \<Rightarrow> (Inl e, s')
           | (Inr u, s') \<Rightarrow> (Inr (), emit_task_event (id_str task) ''TASK_ADDED'' s')))"

definition add_task :: "nat \<Rightarrow> TaskBoardEntry \<Rightarrow> TaskBoardManager \<Rightarrow> unit outcome" where
  "add_task = add_task_with (\<lambda>graph. True)"

definition remove_task :: "nat \<Rightarrow> string \<Rightarrow> TaskBoardManager \<Rightarrow> unit outcome" where
  "remove_task n tid s =
     (if map_of (tasks s) tid = None then (Inl KeyError, s)
      else case get_blocked_tasks tid s of
        Inl e \<Rightarrow> (Inl e, s)
      | Inr blocked_tasks \<Rightarrow>
          (case for_each blocked_tasks (handle_partial_failure n) s of
             (Inl e, s') \<Rightarrow> (Inl e, s')
           | (Inr u, s1) \<Rightarrow>
               let s2 = s1\<lparr>tasks := AList.delete tid (tasks s1)\<rparr> in
               if map_of (dependency_graph s2) tid = None then (Inl KeyError, s2)
               else
                 let s3 = s2\<lparr>dependency_graph := AList.delete tid (dependency_graph s2)\<rparr>;
                     s4 = s3\<lparr>priority_queue := heapify (filter (\<lambda>(p, t). t \<noteq> tid) (priority_queue s3))\<rparr>;
                     s5 = s4\<lparr>dependency_graph := map (\<lambda>(k, other_deps). (k, removeAll tid other_deps)) (dependency_graph s4)\<rparr>
                 in (Inr (), emit_task_event tid ''TASK_REMOVED'' s5)))"

definition update_priority :: "string \<Rightarrow> int \<Rightarrow> TaskBoardManager \<Rightarrow> unit outcome" where
  "update_priority tid new_priority s =
     (if map_of (tasks s) tid = None then (Inl KeyError, s)
      else if \<not> (1 \<le> new_priority \<and> new_priority \<le> 5) then (Inl ValueError, s)
      else
        let s1 = modify_task tid (\<lambda>t. t\<lparr>priority := new_priority\<rparr>) s;
            s2 = s1\<lparr>priority_queue := heapify (map (\<lambda>(k, t). (priority t, id_str t)) (tasks s1))\<rparr>
        in (Inr (), emit_task_event tid ''PRIORITY_UPDATED'' s2))"

text \<open>
  \<^verbatim>\<open>update_dependencies\<close>. As in \<^verbatim>\<open>add_task\<close>, the call of the
  \<^verbatim>\<open>async def _detect_cycles_in_graph\<close> is not awaited, and \<open>update_dependencies\<close>
  is the instance whose cycle test is true for every graph.
\<close>

definition update_dependencies_with :: "((string \<times> string list) list \<Rightarrow> bool) \<Rightarrow> nat \<Rightarrow> string \<Rightarrow> string list \<Rightarrow> TaskBoardManager \<Rightarrow> unit outcome" where
  "update_dependencies_with cyclic n tid new_dependencies s =
     (case map_of (tasks s) tid of
        None \<Rightarrow> (Inl KeyError, s)
      | Some task0 \<Rightarrow>
          if \<exists>dep_id \<in> set new_dependencies. map_of (tasks s) dep_id = None then (Inl ValueError, s)
          else if cyclic (AList.update tid (remdups new_dependencies) (dependency_graph s))
          then (Inl CircularDependencyError, s)
          else
            let s1 = modify_task tid (\<lambda>t. t\<lparr>dependencies := new_dependencies\<rparr>) s;
                s2 = s1\<lparr>dependency_graph := AList.update tid (remdups new_dependencies) (dependency_graph s1)\<rparr> in
            (case (if status task0 = IN_PROGRESS
                   then (case check_dependencies tid s2 of
                           Inl e \<Rightarrow> (Inl e, s2)
                         | Inr all_deps_complete \<Rightarrow>
                             if \<not> all_deps_complete
                             then update_task_status n tid WAITING ''New dependencies added'' s2
                             else (Inr (), s2))
                   else (Inr (), s2)) of
               (Inl e, s') \<Rightarrow> (Inl e, s')
             | (Inr u, s') \<Rightarrow> (Inr (), emit_task_event tid ''DEPENDENCIES_UPDATED'' s')))"

definition update_dependencies :: "nat \<Rightarrow> string \<Rightarrow> string list \<Rightarrow> TaskBoardManager \<Rightarrow> unit outcome" where
  "update_dependencies = update_dependencies_with (\<lambda>graph. True)"

text \<open>
  \<^verbatim>\<open>get_next_priority_task\<close>. The \<^verbatim>\<open>while\<close> loop need not end, so the model
  returns \<open>None\<close> when the loop runs forever and \<open>Some\<close> of the outcome otherwise.
\<close>

partial_function (option) get_next_priority_task :: "nat \<Rightarrow> TaskBoardManager \<Rightarrow> (string option) outcome option" where
  "get_next_priority_task n s =
     (case priority_queue s of
        [] \<Rightarrow> Some (Inr None, s)
      | item # rest \<Rightarrow>
          (case map_of (tasks s) (snd item) of
             None \<Rightarrow> get_next_priority_task n (s\<lparr>priority_queue := rest\<rparr>)
           | Some task \<Rightarrow>
               if status task = WAITING then
                 (case check_dependencies (snd item) (s\<lparr>priority_queue := rest\<rparr>) of
                    Inl e \<Rightarrow> Some (Inl e, s\<lparr>priority_queue := rest\<rparr>)
                  | Inr ok \<Rightarrow>
                      if ok then
                        (case update_task_status n (snd item) IN_PROGRESS ''Dependencies satisfied''
                                (s\<lparr>priority_queue := rest\<rparr>) of
                           (Inl e, s') \<Rightarrow> Some (Inl e, s')
                         | (Inr u, s') \<Rightarrow> Some (Inr (Some (snd item)), s'))
                      else get_next_priority_task n
                             (s\<lparr>priority_queue := heappush (priority task, snd item) rest\<rparr>))
               else if status task = IN_PROGRESS then Some (Inr (Some (snd item)), s\<lparr>priority_queue := rest\<rparr>)
               else get_next_priority_task n
                      (s\<lparr>priority_queue := heappush (priority task, snd item) rest\<rparr>)))"

text \<open>The queries \<^verbatim>\<open>get_task_status\<close> and \<^verbatim>\<open>get_task_dependencies\<close>; the
  second answers with the set that the dependency graph holds for the task.\<close>

definition get_task_status :: "string \<Rightarrow> TaskBoardManager \<Rightarrow> error + TaskStatus" where
  "get_task_status tid s =
     (case map_of (tasks s) tid of None \<Rightarrow> Inl KeyError | Some task \<Rightarrow> Inr (status task))"

definition get_task_dependencies :: "string \<Rightarrow> TaskBoardManager \<Rightarrow> error + string list" where
  "get_task_dependencies tid s =
     (if map_of (tasks s) tid = None then Inl KeyError
      else case map_of (dependency_graph s) tid of
             None \<Rightarrow> Inl KeyError
           | Some deps \<Rightarrow> Inr deps)"

section \<open>Boards used as concrete inputs\<close>

text \<open>An entry with the defaults of the dataclass, and a board holding the given entries,
  its dependency graph and queue built from them, with an event stream attached.\<close>

definition new_entry :: "string \<Rightarrow> string list \<Rightarrow> TaskStatus \<Rightarrow> TaskBoardEntry" where
  "new_entry i deps st =
     \<lparr>id_str = i, description = [], dependencies = deps, status = st,
      verification_feedback = [], output_val = PyNone, priority = 5, max_iterations = 10,
      current_iterations = 0, assigned_agent = None\<rparr>"

definition board :: "(string \<times> TaskBoardEntry) list \<Rightarrow> TaskBoardManager" where
  "board ts =
     \<lparr>tasks = ts, event_stream = Some [],
      dependency_graph = map (\<lambda>(k, t). (k, remdups (dependencies t))) ts,
      priority_queue = heapify (map (\<lambda>(k, t). (priority t, k)) ts),
      feedback_threshold = 3, escalation_agent = ''delegator''\<rparr>"

text \<open>
  Iteration cap: one task \<open>t\<close> in review with \<^verbatim>\<open>max_iterations = 2\<close> and no iteration
  counted. It fails verification, is taken back to work and to review, and fails again.
\<close>

definition cap_board :: TaskBoardManager where
  "cap_board = board [(''t'', (new_entry ''t'' [] PENDING_REVIEW)\<lparr>max_iterations := 2\<rparr>)]"

definition cap_fail1 :: "unit outcome" where
  "cap_fail1 = handle_verification_result 10 ''t'' False [] cap_board"

definition cap_rework :: "unit outcome" where
  "cap_rework = update_task_status 10 ''t'' IN_PROGRESS ''rework'' (snd cap_fail1)"

definition cap_review :: "unit outcome" where
  "cap_review = request_verification 10 ''t'' (snd cap_rework)"

definition cap_fail2 :: "unit outcome" where
  "cap_fail2 = handle_verification_result 10 ''t'' False [] (snd cap_review)"

text \<open>
  Feedback conflict: one task \<open>t\<close> in review without feedback, threshold 3, and the three
  orders in which two approvals and one rejection can arrive.
\<close>

definition review_board :: TaskBoardManager where
  "review_board = board [(''t'', new_entry ''t'' [] PENDING_REVIEW)]"

definition approve :: "(string \<times> pyval) list" where
  "approve = [(''verdict'', PyStr ''approve'')]"

definition reject :: "(string \<times> pyval) list" where
  "reject = [(''verdict'', PyStr ''reject'')]"

fun feed :: "nat \<Rightarrow> string \<Rightarrow> string \<Rightarrow> (string \<times> pyval) list list \<Rightarrow> TaskBoardManager
    \<Rightarrow> (error + unit) list \<times> TaskBoardManager" where
  "feed n tid source [] s = ([], s)"
| "feed n tid source (f # fs) s =
     (case handle_feedback n tid f source s of
        (r, s') \<Rightarrow> (case feed n tid source fs s' of (rs, s'') \<Rightarrow> (r # rs, s'')))"

text \<open>Dependency update and task creation on a board with two running tasks.\<close>

definition two_running :: TaskBoardManager where
  "two_running = board [(''a'', new_entry ''a'' [] IN_PROGRESS), (''t'', new_entry ''t'' [] IN_PROGRESS)]"

text \<open>
  Scheduling: \<open>sched_board\<close> holds the running task \<open>b\<close> (priority 2) and the task \<open>a\<close>
  in review (priority 1); \<open>idle_board\<close> holds only a task that is complete.
\<close>

definition sched_board :: TaskBoardManager where
  "sched_board = board [(''a'', (new_entry ''a'' [] PENDING_REVIEW)\<lparr>priority := 1\<rparr>),
                        (''b'', (new_entry ''b'' [] IN_PROGRESS)\<lparr>priority := 2\<rparr>)]"

definition idle_board :: TaskBoardManager where
  "idle_board = board [(''a'', new_entry ''a'' [] COMPLETE)]"

text \<open>
  Completion: \<open>B\<close> waits for \<open>A\<close>, which is in review and has produced an output. On
  \<open>withdrawn_board\<close> a task \<open>D\<close> that was abandoned while it waited depends on \<open>A\<close>
  as well; on \<open>crowded_board\<close> \<open>D\<close> is running instead; on \<open>text_output_board\<close> the
  output of \<open>B\<close> is a string.
\<close>

definition withdrawn_board :: TaskBoardManager where
  "withdrawn_board = board [(''A'', (new_entry ''A'' [] PENDING_REVIEW)\<lparr>output_val := PyStr ''res''\<rparr>),
                            (''D'', new_entry ''D'' [''A''] ABANDONED),
                            (''B'', new_entry ''B'' [''A''] WAITING)]"

definition completion_board :: TaskBoardManager where
  "completion_board = board [(''A'', (new_entry ''A'' [] PENDING_REVIEW)\<lparr>output_val := PyStr ''res''\<rparr>),
                             (''B'', new_entry ''B'' [''A''] WAITING)]"

definition crowded_board :: TaskBoardManager where
  "crowded_board = board [(''A'', (new_entry ''A'' [] PENDING_REVIEW)\<lparr>output_val := PyStr ''res''\<rparr>),
                          (''D'', new_entry ''D'' [''A''] IN_PROGRESS),
                          (''B'', new_entry ''B'' [''A''] WAITING)]"

definition text_output_board :: TaskBoardManager where
  "text_output_board = board [(''A'', (new_entry ''A'' [] PENDING_REVIEW)\<lparr>output_val := PyStr ''res''\<rparr>),
                              (''B'', (new_entry ''B'' [''A''] WAITING)\<lparr>output_val := PyStr ''draft''\<rparr>)]"

text \<open>Abandonment: the chain \<open>C\<close> on \<open>B\<close> on \<open>A\<close>, with \<open>B\<close> and \<open>C\<close> waiting.
  \<open>A\<close> is stalled, a status from which it may be abandoned.\<close>

definition chain_board :: TaskBoardManager where
  "chain_board = board [(''A'', new_entry ''A'' [] STALLED), (''B'', new_entry ''B'' [''A''] WAITING),
                        (''C'', new_entry ''C'' [''B''] WAITING)]"

text \<open>
  Consistency of a board: the task store and the dependency graph have the same keys, and
  every id in a dependency set of the graph (the set that \<^verbatim>\<open>get_task_dependencies\<close>
  returns for a task) is a key of the store. \<open>shape\<close> is the part of the manager this
  depends on, and \<open>init\<close> is the manager that \<^verbatim>\<open>__init__\<close> builds.
\<close>

definition shape :: "TaskBoardManager \<Rightarrow> string set \<times> (string \<times> string list) list" where
  "shape s = (fst ` set (tasks s), dependency_graph s)"

definition board_consistent :: "TaskBoardManager \<Rightarrow> bool" where
  "board_consistent s \<longleftrightarrow>
     fst ` set (tasks s) = fst ` set (dependency_graph s)
     \<and> (\<forall>(k, deps) \<in> set (dependency_graph s). set deps \<subseteq> fst ` set (tasks s))"

definition shape_ok :: "string set \<times> (string \<times> string list) list \<Rightarrow> bool" where
  "shape_ok sh \<longleftrightarrow> fst sh = fst ` set (snd sh) \<and> (\<forall>(k, deps) \<in> set (snd sh). set deps \<subseteq> fst sh)"

definition init :: TaskBoardManager where
  "init = \<lparr>tasks = [], event_stream = None, dependency_graph = [], priority_queue = [],
           feedback_threshold = 3, escalation_agent = ''delegator''\<rparr>"

text \<open>A board whose only task is complete.\<close>

definition done_board :: TaskBoardManager where
  "done_board = board [(''t'', new_entry ''t'' [] COMPLETE)]"

section \<open>Reading the store after a statement\<close>

lemma map_of_tasks_modify:
  "map_of (tasks (modify_task t f s)) k =
     (if k = t then map_option f (map_of (tasks s) t) else map_of (tasks s) k)"
  by (simp add: modify_task_def map_of_map_entry split: option.split)

lemma modify_task_other [simp]:
  "dependency_graph (modify_task t f s) = dependency_graph s"
  "event_stream (modify_task t f s) = event_stream s"
  "priority_queue (modify_task t f s) = priority_queue s"
  "feedback_threshold (modify_task t f s) = feedback_threshold s"
  by (simp_all add: modify_task_def)

lemma emit_task_event_other [simp]:
  "tasks (emit_task_event t ty s) = tasks s"
  "dependency_graph (emit_task_event t ty s) = dependency_graph s"
  "priority_queue (emit_task_event t ty s) = priority_queue s"
  "feedback_threshold (emit_task_event t ty s) = feedback_threshold s"
  by (simp_all add: emit_task_event_def split: option.split)

lemma get_blocked_tasks_modify [simp]:
  "get_blocked_tasks x (modify_task t f s) = get_blocked_tasks x s"
  by (simp add: get_blocked_tasks_def map_of_tasks_modify)

lemma get_blocked_tasks_emit [simp]:
  "get_blocked_tasks x (emit_task_event t ty s) = get_blocked_tasks x s"
  by (simp add: get_blocked_tasks_def)

text \<open>The status of a task after a statement that does not write it, and a loop that keeps
  a property of the manager.\<close>

lemma get_task_status_emit [simp]:
  "get_task_status t (emit_task_event x ty s) = get_task_status t s"
  by (simp add: get_task_status_def)

lemma get_task_status_modify_other:
  "x \<noteq> t \<Longrightarrow> get_task_status t (modify_task x f s) = get_task_status t s"
  by (simp add: get_task_status_def map_of_tasks_modify)

lemma get_task_status_modify_field:
  "(\<And>e. status (f e) = status e) \<Longrightarrow> get_task_status t (modify_task x f s) = get_task_status t s"
  by (auto simp: get_task_status_def map_of_tasks_modify split: option.splits)

lemma for_each_invariant:
  assumes "\<And>x s. P s \<Longrightarrow> P (snd (body x s))" "P s"
  shows "P (snd (for_each xs body s))"
  using assms(2)
proof (induction xs arbitrary: s)
  case Nil
  then show ?case by simp
next
  case (Cons x xs)
  show ?case
  proof (cases "body x s")
    case (Pair r s')
    with assms(1) [of s x] Cons.prems have s': "P s'" by simp
    show ?thesis
    proof (cases r)
      case (Inl e)
      with Pair s' show ?thesis by simp
    next
      case (Inr u)
      with Pair Cons.IH [OF s'] show ?thesis by simp
    qed
  qed
qed

text \<open>A legal transition to a status without status-specific logic.\<close>

lemma transition_step_plain:
  assumes "map_of (tasks s) t = Some e" "new \<in> set (VALID_TRANSITIONS (status e))"
    and "new = IN_PROGRESS \<or> new = PENDING_REVIEW \<or> new = WAITING"
  shows "transition_step upd t new r s
           = (Inr (), emit_task_event t ''STATUS_CHANGED'' (modify_task t (\<lambda>x. x\<lparr>status := new\<rparr>) s))"
  using assms by (auto simp: transition_step_def status_logic_def)

lemma propagate_result_ready:
  assumes B: "map_of (tasks sx) b = Some tb" "status tb = WAITING"
    and A: "map_of (tasks sx) a = Some ta" "status ta = COMPLETE"
    and dep: "map_of (dependency_graph sx) b = Some [a]"
    and out: "\<not> truthy (output_val tb) \<or> (\<exists>d. output_val tb = PyDict d)"
  shows "\<exists>d sz. propagate_result (transition_step upd) a b sx = (Inr (), sz)
           \<and> map_of (tasks sz) b = Some (tb\<lparr>output_val := PyDict d, status := IN_PROGRESS\<rparr>)
           \<and> map_of d a = Some (output_val ta)
           \<and> get_blocked_tasks a sz = get_blocked_tasks a sx"
proof -
  have ne: "a \<noteq> b" using A B by auto
  define d0 where "d0 = (if truthy (output_val tb) then (case output_val tb of PyDict d \<Rightarrow> d | _ \<Rightarrow> []) else [])"
  define sy where "sy = (if \<not> truthy (output_val tb)
                    then modify_task b (\<lambda>t. t\<lparr>output_val := PyDict []\<rparr>) sx else sx)"
  define tb' where "tb' = tb\<lparr>output_val := PyDict d0\<rparr>"
  have syb: "map_of (tasks sy) b = Some tb'"
    using B out by (auto simp: sy_def tb'_def d0_def map_of_tasks_modify)
  have sya: "map_of (tasks sy) a = Some ta"
    using A ne by (auto simp: sy_def map_of_tasks_modify)
  define sz where "sz = modify_task b (\<lambda>t. t\<lparr>output_val := PyDict (AList.update a (output_val ta) d0)\<rparr>) sy"
  have szb: "map_of (tasks sz) b = Some (tb\<lparr>output_val := PyDict (AList.update a (output_val ta) d0)\<rparr>)"
    using syb by (simp add: sz_def map_of_tasks_modify tb'_def)
  have sza: "map_of (tasks sz) a = Some ta"
    using sya ne by (simp add: sz_def map_of_tasks_modify)
  have graph: "dependency_graph sz = dependency_graph sx"
    by (simp add: sz_def sy_def)
  have chk: "check_dependencies b sz = Inr True"
    using szb sza dep A by (simp add: check_dependencies_def graph)
  have step: "transition_step upd b IN_PROGRESS ''All dependencies complete'' sz
      = (Inr (), emit_task_event b ''STATUS_CHANGED'' (modify_task b (\<lambda>x. x\<lparr>status := IN_PROGRESS\<rparr>) sz))"
    using szb B by (intro transition_step_plain) auto
  have "propagate_result (transition_step upd) a b sx
      = (Inr (), emit_task_event b ''STATUS_CHANGED'' (modify_task b (\<lambda>x. x\<lparr>status := IN_PROGRESS\<rparr>) sz))"
    unfolding propagate_result_def
    using B syb sya chk step
    by (simp add: sy_def [symmetric] Let_def tb'_def sz_def [symmetric])
  moreover have "map_of (tasks (emit_task_event b ''STATUS_CHANGED'' (modify_task b (\<lambda>x. x\<lparr>status := IN_PROGRESS\<rparr>) sz))) b
      = Some (tb\<lparr>output_val := PyDict (AList.update a (output_val ta) d0), status := IN_PROGRESS\<rparr>)"
    using szb by (simp add: map_of_tasks_modify)
  moreover have "map_of (AList.update a (output_val ta) d0) a = Some (output_val ta)"
    by (simp add: update_conv')
  moreover have "get_blocked_tasks a (emit_task_event b ''STATUS_CHANGED'' (modify_task b (\<lambda>x. x\<lparr>status := IN_PROGRESS\<rparr>) sz)) = get_blocked_tasks a sx"
    by (simp add: sz_def sy_def)
  ultimately show ?thesis by blast
qed

section \<open>Transition legality\<close>

text \<open>
  C1. For a stored task, a requested status that is not in \<^verbatim>\<open>VALID_TRANSITIONS\<close> of
  the current status (in particular any request on a \<^verbatim>\<open>COMPLETE\<close> or
  \<^verbatim>\<open>ABANDONED\<close> task, and any request equal to the current status) makes
  \<^verbatim>\<open>update_task_status\<close> raise \<^verbatim>\<open>InvalidTransitionError\<close> and leaves the whole
  manager, so also the stored status and entry, unchanged.
\<close>

theorem update_task_status_rejects_illegal:
  assumes "map_of (tasks s) tid = Some task"
    and "new_status \<notin> set (VALID_TRANSITIONS (status task))
         \<or> status task = COMPLETE \<or> status task = ABANDONED \<or> new_status = status task"
  shows "update_task_status (Suc n) tid new_status reason s = (Inl InvalidTransitionError, s)"
  using assms by (cases "status task") (auto simp: transition_step_def)

theorem update_task_status_rejects_illegal_witness:
  "update_task_status (Suc 0) ''a'' IN_PROGRESS ''retry'' (board [(''a'', new_entry ''a'' [] COMPLETE)])
     = (Inl InvalidTransitionError, board [(''a'', new_entry ''a'' [] COMPLETE)])"
  using update_task_status_rejects_illegal
          [of "board [(''a'', new_entry ''a'' [] COMPLETE)]" "''a''" "new_entry ''a'' [] COMPLETE"
              IN_PROGRESS 0 "''retry''"]
  by (simp add: board_def new_entry_def)

text \<open>
  Two facts about the table that several operations run into: no status has an edge
  into \<^verbatim>\<open>WAITING\<close>, and only \<^verbatim>\<open>IN_PROGRESS\<close> has an edge into
  \<^verbatim>\<open>STALLED\<close>. A transition into \<^verbatim>\<open>WAITING\<close> is therefore never accepted, and
  the forced stall of \<^verbatim>\<open>escalate_task\<close> is rejected, after its event is emitted,
  for every task that is not running.
\<close>

lemma no_edge_into_WAITING: "WAITING \<notin> set (VALID_TRANSITIONS st)"
  by (cases st) auto

lemma stalled_edge: "STALLED \<in> set (VALID_TRANSITIONS st) \<longleftrightarrow> st = IN_PROGRESS"
  by (cases st) auto

lemma transition_to_WAITING_rejected:
  "fst (update_task_status n t WAITING r s) \<noteq> Inr () \<and> snd (update_task_status n t WAITING r s) = s"
  by (cases n) (auto simp: transition_step_def no_edge_into_WAITING split: option.splits)

lemma transition_to_STALLED_rejected:
  assumes "map_of (tasks s) t = Some e" "status e \<noteq> IN_PROGRESS"
  shows "fst (update_task_status n t STALLED r s) \<noteq> Inr () \<and> snd (update_task_status n t STALLED r s) = s"
  using assms by (cases n) (auto simp: transition_step_def stalled_edge)

lemma escalate_task_rejected:
  assumes "map_of (tasks s) t = Some e" "status e \<noteq> IN_PROGRESS"
  shows "fst (escalate_task n t r s) \<noteq> Inr ()
       \<and> snd (escalate_task n t r s) = emit_task_event t ''TASK_ESCALATED'' s"
  using assms transition_to_STALLED_rejected [of "emit_task_event t ''TASK_ESCALATED'' s" t e n r]
  by (simp add: escalate_task_def escalate_task_via_def)

section \<open>Abandonment cascade\<close>

text \<open>
  An accepted transition to \<^verbatim>\<open>ABANDONED\<close> writes the status and then raises
  \<^verbatim>\<open>AttributeError\<close>, the method \<^verbatim>\<open>propagate_status\<close> being undefined: no
  transition to \<^verbatim>\<open>ABANDONED\<close> returns normally, and no other task is touched.
\<close>

lemma transition_to_ABANDONED_raises:
  assumes "map_of (tasks s) t = Some e" "ABANDONED \<in> set (VALID_TRANSITIONS (status e))"
  shows "update_task_status (Suc n) t ABANDONED r s
           = (Inl AttributeError, modify_task t (\<lambda>x. x\<lparr>status := ABANDONED\<rparr>) s)"
  using assms by (simp add: transition_step_def status_logic_def)

lemma transition_to_ABANDONED_never_returns:
  "fst (update_task_status n t ABANDONED r s) \<noteq> Inr ()"
  by (cases n) (auto simp: transition_step_def status_logic_def split: option.splits)

lemma transition_to_ABANDONED_keeps_others:
  "k \<noteq> t \<Longrightarrow> map_of (tasks (snd (update_task_status n t ABANDONED r s))) k = map_of (tasks s) k"
  by (cases n) (auto simp: transition_step_def status_logic_def map_of_tasks_modify split: option.splits)

text \<open>
  C2. The claim: on a chain where \<open>C\<close> depends on \<open>B\<close> and \<open>B\<close> on \<open>A\<close>, the
  transition of \<open>A\<close> to \<^verbatim>\<open>ABANDONED\<close> leaves \<open>B\<close> and \<open>C\<close>
  \<^verbatim>\<open>ABANDONED\<close> as well. On the code no transition to \<^verbatim>\<open>ABANDONED\<close> returns
  normally: on the chain the call writes the status of \<open>A\<close> and raises
  \<^verbatim>\<open>AttributeError\<close>, and \<open>B\<close> and \<open>C\<close> stay \<^verbatim>\<open>WAITING\<close>. The cascade
  that \<^verbatim>\<open>handle_status_transition\<close> holds abandons \<open>B\<close> through the same entry
  point, so it raises there and does not reach \<open>C\<close> either.
\<close>

theorem abandonment_raises_AttributeError:
  "fst (update_task_status n t ABANDONED reason s) \<noteq> Inr ()
   \<and> map_of (dependency_graph chain_board) ''B'' = Some [''A'']
   \<and> map_of (dependency_graph chain_board) ''C'' = Some [''B'']
   \<and> get_task_status ''A'' chain_board = Inr STALLED
   \<and> fst (update_task_status 10 ''A'' ABANDONED ''rejected'' chain_board) = Inl AttributeError
   \<and> get_task_status ''A'' (snd (update_task_status 10 ''A'' ABANDONED ''rejected'' chain_board)) = Inr ABANDONED
   \<and> get_task_status ''B'' (snd (update_task_status 10 ''A'' ABANDONED ''rejected'' chain_board)) = Inr WAITING
   \<and> get_task_status ''C'' (snd (update_task_status 10 ''A'' ABANDONED ''rejected'' chain_board)) = Inr WAITING
   \<and> fst (handle_status_transition 10 ''A'' STALLED ABANDONED chain_board) = Inl AttributeError
   \<and> get_task_status ''B'' (snd (handle_status_transition 10 ''A'' STALLED ABANDONED chain_board)) = Inr ABANDONED
   \<and> get_task_status ''C'' (snd (handle_status_transition 10 ''A'' STALLED ABANDONED chain_board)) = Inr WAITING"
proof -
  have "map_of (dependency_graph chain_board) ''B'' = Some [''A'']
   \<and> map_of (dependency_graph chain_board) ''C'' = Some [''B'']
   \<and> get_task_status ''A'' chain_board = Inr STALLED
   \<and> fst (update_task_status 10 ''A'' ABANDONED ''rejected'' chain_board) = Inl AttributeError
   \<and> get_task_status ''A'' (snd (update_task_status 10 ''A'' ABANDONED ''rejected'' chain_board)) = Inr ABANDONED
   \<and> get_task_status ''B'' (snd (update_task_status 10 ''A'' ABANDONED ''rejected'' chain_board)) = Inr WAITING
   \<and> get_task_status ''C'' (snd (update_task_status 10 ''A'' ABANDONED ''rejected'' chain_board)) = Inr WAITING
   \<and> fst (handle_status_transition 10 ''A'' STALLED ABANDONED chain_board) = Inl AttributeError
   \<and> get_task_status ''B'' (snd (handle_status_transition 10 ''A'' STALLED ABANDONED chain_board)) = Inr ABANDONED
   \<and> get_task_status ''C'' (snd (handle_status_transition 10 ''A'' STALLED ABANDONED chain_board)) = Inr WAITING"
    by code_simp
  with transition_to_ABANDONED_never_returns [of n t reason s] show ?thesis by blast
qed

section \<open>Iteration cap\<close>

text \<open>
  Whatever the board and the counters, a failed verification result leaves a task that was
  in review either in review or in \<^verbatim>\<open>REWORK_NEEDED\<close>: it is never stalled.
\<close>

lemma rework_keeps_out_of_STALLED:
  assumes "map_of (tasks s) t = Some e" "status e = PENDING_REVIEW"
  shows "get_task_status t (snd (update_task_status n t REWORK_NEEDED r s))
           \<in> {Inr PENDING_REVIEW, Inr REWORK_NEEDED}"
proof (cases n)
  case 0
  with assms show ?thesis by (simp add: get_task_status_def)
next
  case (Suc m)
  define s2 where "s2 = modify_task t (\<lambda>x. x\<lparr>current_iterations := current_iterations x + 1\<rparr>)
                          (modify_task t (\<lambda>x. x\<lparr>status := REWORK_NEEDED\<rparr>) s)"
  have s2t: "map_of (tasks s2) t = Some (e\<lparr>status := REWORK_NEEDED, current_iterations := current_iterations e + 1\<rparr>)"
    using assms by (simp add: s2_def map_of_tasks_modify)
  have esc: "snd (escalate_task_via (update_task_status m) t x s2) = emit_task_event t ''TASK_ESCALATED'' s2" for x
    using escalate_task_rejected [OF s2t, of m x] by (simp add: escalate_task_def)
  have "get_task_status t (snd (status_logic (update_task_status m) t REWORK_NEEDED r
            (modify_task t (\<lambda>x. x\<lparr>status := REWORK_NEEDED\<rparr>) s))) = Inr REWORK_NEEDED"
    using s2t esc
    by (simp add: status_logic_def Let_def s2_def [symmetric] get_task_status_def)
  then show ?thesis
    using assms Suc
    by (auto simp: transition_step_def get_task_status_def split: prod.splits sum.splits)
qed

lemma failed_verification_never_stalls:
  assumes "map_of (tasks s) t = Some e" "status e = PENDING_REVIEW"
  shows "get_task_status t (snd (handle_verification_result n t False fb s))
           \<in> {Inr PENDING_REVIEW, Inr REWORK_NEEDED}"
proof -
  define s1 where "s1 = modify_task t (\<lambda>x. x\<lparr>verification_feedback := verification_feedback x @
                        [[(''passed'', PyBool False), (''feedback'', PyDict fb)]]\<rparr>) s"
  define e1 where "e1 = e\<lparr>verification_feedback := verification_feedback e @
                        [[(''passed'', PyBool False), (''feedback'', PyDict fb)]]\<rparr>"
  define s1' where "s1' = modify_task t (\<lambda>x. x\<lparr>current_iterations := current_iterations x + 1\<rparr>) s1"
  have s1t: "map_of (tasks s1') t = Some (e1\<lparr>current_iterations := current_iterations e1 + 1\<rparr>)"
    using assms by (simp add: s1'_def s1_def e1_def map_of_tasks_modify)
  have st: "status (e1\<lparr>current_iterations := current_iterations e1 + 1\<rparr>) = PENDING_REVIEW"
    using assms by (simp add: e1_def)
  have lim: "snd (handle_iteration_limit_reached n t s1') = s1'"
    using s1t st transition_to_STALLED_rejected [OF s1t, of n]
    by (simp add: handle_iteration_limit_reached_def)
  obtain r2 s2 where inc: "increment_iteration n t s1 = (r2, s2)" by (cases "increment_iteration n t s1")
  have s1_t: "map_of (tasks s1) t = Some e1" using assms by (simp add: s1_def e1_def map_of_tasks_modify)
  have s2t: "map_of (tasks s2) t = Some (e1\<lparr>current_iterations := current_iterations e1 + 1\<rparr>)"
    using inc s1_t s1t lim
    by (auto simp: increment_iteration_def Let_def s1'_def [symmetric]
        split: if_splits prod.splits sum.splits)
  have rw: "get_task_status t (snd (update_task_status n t REWORK_NEEDED x s2))
           \<in> {Inr PENDING_REVIEW, Inr REWORK_NEEDED}" for x
    by (rule rework_keeps_out_of_STALLED [OF s2t st])
  show ?thesis
    using assms inc s2t st rw
    by (auto simp: handle_verification_result_def Let_def s1_def [symmetric] get_task_status_def
        split: sum.splits)
qed

text \<open>
  C3. The claim: a task with \<^verbatim>\<open>max_iterations = 2\<close> that fails verification twice is
  \<^verbatim>\<open>STALLED\<close> (or escalated) after the second failure. On the code the first failed
  result already counts two iterations (once in \<^verbatim>\<open>increment_iteration\<close>, once in
  the \<^verbatim>\<open>REWORK_NEEDED\<close> branch) and calls \<^verbatim>\<open>escalate_task\<close>, which emits its
  event and raises because \<^verbatim>\<open>REWORK_NEEDED\<close> has no edge to \<^verbatim>\<open>STALLED\<close>. The
  second failed result calls the iteration-limit handler, which raises because
  \<^verbatim>\<open>PENDING_REVIEW\<close> has no edge to \<^verbatim>\<open>STALLED\<close> either: nothing is emitted, and
  the task stays in \<^verbatim>\<open>PENDING_REVIEW\<close> with three iterations counted.
\<close>

theorem iteration_cap_never_stalls:
  "fst cap_fail1 = Inl InvalidTransitionError
   \<and> get_task_status ''t'' (snd cap_fail1) = Inr REWORK_NEEDED
   \<and> map_option current_iterations (map_of (tasks (snd cap_fail1)) ''t'') = Some 2
   \<and> map_option (map event_type) (event_stream (snd cap_fail1))
       = Some [''ITERATION_INCREMENTED'', ''TASK_ESCALATED'']
   \<and> fst cap_rework = Inr () \<and> fst cap_review = Inr ()
   \<and> get_task_status ''t'' (snd cap_review) = Inr PENDING_REVIEW
   \<and> fst cap_fail2 = Inl InvalidTransitionError
   \<and> get_task_status ''t'' (snd cap_fail2) = Inr PENDING_REVIEW
   \<and> map_option current_iterations (map_of (tasks (snd cap_fail2)) ''t'') = Some 3
   \<and> event_stream (snd cap_fail2) = event_stream (snd cap_review)"
  by code_simp

section \<open>Feedback conflict escalation\<close>

text \<open>
  \<^verbatim>\<open>COMPLETE\<close> has no entry in the table, and every write of a status goes through
  the check against the table: once a task is \<^verbatim>\<open>COMPLETE\<close>, no transition, no
  cascade and no feedback takes it out of that status.
\<close>

lemma complete_propagate_result:
  assumes upd: "\<And>x st r s. get_task_status t s = Inr COMPLETE
                   \<Longrightarrow> get_task_status t (snd (upd x st r s)) = Inr COMPLETE"
    and "get_task_status t s = Inr COMPLETE"
  shows "get_task_status t (snd (propagate_result upd a b s)) = Inr COMPLETE"
  using assms(2)
  by (auto simp: propagate_result_def Let_def get_task_status_modify_field upd
      split: option.splits sum.splits)

lemma complete_status_logic:
  assumes upd: "\<And>x st r s. get_task_status t s = Inr COMPLETE
                   \<Longrightarrow> get_task_status t (snd (upd x st r s)) = Inr COMPLETE"
    and "get_task_status t s = Inr COMPLETE"
  shows "get_task_status t (snd (status_logic upd x new r s)) = Inr COMPLETE"
proof -
  have loop: "get_task_status t (snd (for_each bs (propagate_result upd x) s)) = Inr COMPLETE" for bs
    by (rule for_each_invariant [where P = "\<lambda>s. get_task_status t s = Inr COMPLETE"])
       (simp_all add: complete_propagate_result [OF upd] assms(2))
  show ?thesis
    using assms(2) loop
    by (auto simp: status_logic_def handle_partial_failure_via_def escalate_task_via_def Let_def
        get_task_status_modify_field upd
        split: option.splits sum.splits)
qed

lemma complete_transition_step:
  assumes upd: "\<And>x st r s. get_task_status t s = Inr COMPLETE
                   \<Longrightarrow> get_task_status t (snd (upd x st r s)) = Inr COMPLETE"
    and c: "get_task_status t s = Inr COMPLETE"
  shows "get_task_status t (snd (transition_step upd x new r s)) = Inr COMPLETE"
proof (cases "map_of (tasks s) x")
  case None
  with c show ?thesis by (simp add: transition_step_def)
next
  case (Some e)
  show ?thesis
  proof (cases "new \<in> set (VALID_TRANSITIONS (status e))")
    case False
    with Some c show ?thesis by (simp add: transition_step_def)
  next
    case True
    have "x \<noteq> t"
    proof
      assume "x = t"
      with Some c have "status e = COMPLETE" by (simp add: get_task_status_def)
      with True show False by simp
    qed
    then have m: "get_task_status t (modify_task x (\<lambda>y. y\<lparr>status := new\<rparr>) s) = Inr COMPLETE"
      using c by (simp add: get_task_status_modify_other)
    have "get_task_status t (snd (status_logic upd x new r
                   (modify_task x (\<lambda>y. y\<lparr>status := new\<rparr>) s))) = Inr COMPLETE"
      using complete_status_logic [of t upd, OF upd m] by simp
    with Some True show ?thesis
      by (auto simp: transition_step_def split: prod.splits sum.splits)
  qed
qed

lemma complete_update_task_status:
  "get_task_status t s = Inr COMPLETE
   \<Longrightarrow> get_task_status t (snd (update_task_status n x new r s)) = Inr COMPLETE"
proof (induction n arbitrary: x new r s)
  case 0
  then show ?case by simp
next
  case (Suc n)
  show ?case
    using complete_transition_step [of t "update_task_status n", OF Suc.IH Suc.prems]
    by simp
qed

lemma complete_handle_feedback:
  assumes "get_task_status t s = Inr COMPLETE"
  shows "get_task_status t (snd (handle_feedback n x fb src s)) = Inr COMPLETE"
proof -
  have "get_task_status t (modify_task x (\<lambda>y. y\<lparr>verification_feedback := verification_feedback y @
          [AList.update ''source'' (PyStr src) fb]\<rparr>) s) = Inr COMPLETE"
    using assms by (simp add: get_task_status_modify_field)
  then show ?thesis
    using assms
    by (auto simp: handle_feedback_def Let_def escalate_task_def escalate_task_via_def
        complete_update_task_status
        split: option.splits)
qed

lemma snd_feed_Cons:
  "snd (feed n x src (f # fs) s) = snd (feed n x src fs (snd (handle_feedback n x f src s)))"
  by (simp split: prod.splits)

lemma complete_feed:
  "get_task_status t s = Inr COMPLETE \<Longrightarrow> get_task_status t (snd (feed n x src fs s)) = Inr COMPLETE"
proof (induction fs arbitrary: s)
  case Nil
  then show ?case by simp
next
  case (Cons f fs)
  from complete_handle_feedback [OF Cons.prems, of n x f src]
  have "get_task_status t (snd (handle_feedback n x f src s)) = Inr COMPLETE" .
  from Cons.IH [OF this] show ?case
    by (simp only: snd_feed_Cons)
qed

lemma first_approve_completes:
  assumes "map_of (tasks s) t = Some e" "status e = PENDING_REVIEW" "verification_feedback e = []"
    and "map_of f ''verdict'' = Some (PyStr ''approve'')"
  shows "get_task_status t (snd (handle_feedback (Suc n) t f src s)) = Inr COMPLETE"
proof -
  define f' where "f' = AList.update ''source'' (PyStr src) f"
  define s1 where "s1 = modify_task t (\<lambda>y. y\<lparr>verification_feedback := verification_feedback y @ [f']\<rparr>) s"
  have v: "map_of f' ''verdict'' = Some (PyStr ''approve'')"
    using assms(4) by (simp add: f'_def update_conv')
  have s1t: "map_of (tasks s1) t = Some (e\<lparr>verification_feedback := [f']\<rparr>)"
    using assms by (simp add: s1_def map_of_tasks_modify)
  define s2 where "s2 = modify_task t (\<lambda>y. y\<lparr>status := COMPLETE\<rparr>) s1"
  have c2: "get_task_status t s2 = Inr COMPLETE"
    using s1t by (simp add: s2_def get_task_status_def map_of_tasks_modify)
  have "get_task_status t (snd (status_logic (update_task_status n) t COMPLETE ''Task approved'' s2)) = Inr COMPLETE"
    using complete_status_logic [of t "update_task_status n", OF complete_update_task_status c2] by simp
  then have "get_task_status t (snd (update_task_status (Suc n) t COMPLETE ''Task approved'' s1)) = Inr COMPLETE"
    using s1t assms(2)
    by (auto simp: transition_step_def s2_def [symmetric] split: prod.splits sum.splits)
  then show ?thesis
    using assms(1) s1t v
    by (simp add: handle_feedback_def Let_def f'_def [symmetric] s1_def [symmetric] count_verdict_def)
qed

text \<open>
  C4 as stated fails: \<^verbatim>\<open>handle_feedback\<close> acts on a clear verdict as soon as it
  arrives, so a first approval completes the task. When the rejection arrives second or
  third the task is already \<^verbatim>\<open>COMPLETE\<close>, which is terminal: the later calls raise
  and the task stays \<^verbatim>\<open>COMPLETE\<close>, neither escalated with success nor
  \<^verbatim>\<open>STALLED\<close>.
\<close>

theorem feedback_counterexample:
  "get_task_status ''t'' review_board = Inr PENDING_REVIEW
   \<and> map_option verification_feedback (map_of (tasks review_board) ''t'') = Some []
   \<and> feedback_threshold review_board = 3
   \<and> fst (feed 10 ''t'' ''verifier'' [approve, approve, reject] review_board)
     = [Inr (), Inl InvalidTransitionError, Inl InvalidTransitionError]
   \<and> get_task_status ''t'' (snd (feed 10 ''t'' ''verifier'' [approve, approve, reject] review_board)) = Inr COMPLETE
   \<and> fst (feed 10 ''t'' ''verifier'' [approve, reject, approve] review_board)
     = [Inr (), Inr (), Inl InvalidTransitionError]
   \<and> get_task_status ''t'' (snd (feed 10 ''t'' ''verifier'' [approve, reject, approve] review_board)) = Inr COMPLETE"
  by code_simp

text \<open>
  C4, amended. For a task in review without feedback, a sequence of verdicts that begins
  with an approval leaves the task \<^verbatim>\<open>COMPLETE\<close>: after the first call and after
  every later one, whatever the later verdicts and the threshold are (for every positive
  bound on the call depth). This covers two approvals and one rejection in the orders
  approve, approve, reject and approve, reject, approve.
\<close>

theorem first_approval_completes:
  assumes "map_of (tasks s) t = Some e" "status e = PENDING_REVIEW" "verification_feedback e = []"
    and "map_of f ''verdict'' = Some (PyStr ''approve'')"
  shows "get_task_status t (snd (handle_feedback (Suc n) t f src s)) = Inr COMPLETE
       \<and> get_task_status t (snd (feed (Suc n) t src (f # fs) s)) = Inr COMPLETE"
proof -
  have 1: "get_task_status t (snd (handle_feedback (Suc n) t f src s)) = Inr COMPLETE"
    by (rule first_approve_completes [OF assms])
  from complete_feed [OF 1, of "Suc n" t src fs]
  have "get_task_status t (snd (feed (Suc n) t src (f # fs) s)) = Inr COMPLETE"
    by (simp only: snd_feed_Cons)
  with 1 show ?thesis by simp
qed

theorem first_approval_completes_witness:
  "get_task_status ''t'' (snd (handle_feedback (Suc 0) ''t'' approve ''verifier'' review_board)) = Inr COMPLETE
   \<and> get_task_status ''t'' (snd (feed (Suc 0) ''t'' ''verifier'' [approve, approve, reject] review_board)) = Inr COMPLETE
   \<and> get_task_status ''t'' (snd (feed (Suc 0) ''t'' ''verifier'' [approve, reject, approve] review_board)) = Inr COMPLETE"
proof -
  have t: "map_of (tasks review_board) ''t'' = Some (new_entry ''t'' [] PENDING_REVIEW)"
    by (simp add: review_board_def board_def)
  have e: "status (new_entry ''t'' [] PENDING_REVIEW) = PENDING_REVIEW"
          "verification_feedback (new_entry ''t'' [] PENDING_REVIEW) = []"
    by (simp_all add: new_entry_def)
  have v: "map_of approve ''verdict'' = Some (PyStr ''approve'')"
    by (simp add: approve_def)
  from first_approval_completes [OF t e v, of 0 "''verifier''" "[approve, reject]"]
       first_approval_completes [OF t e v, of 0 "''verifier''" "[reject, approve]"]
  show ?thesis by simp
qed

text \<open>
  The order that begins with the rejection is not part of the amended statement. There the
  task is in \<^verbatim>\<open>REWORK_NEEDED\<close> when the conflict is found, and the forced stall of
  \<^verbatim>\<open>escalate_task\<close> is rejected by the table, as in the iteration cap.
\<close>

lemma feedback_reject_first:
  "fst (feed 10 ''t'' ''verifier'' [reject, approve, approve] review_board)
     = [Inr (), Inr (), Inl InvalidTransitionError]
   \<and> get_task_status ''t'' (snd (feed 10 ''t'' ''verifier'' [reject, approve, approve] review_board)) = Inr REWORK_NEEDED"
  by code_simp

section \<open>Completion propagation\<close>

text \<open>
  Where \<open>b\<close> waits with the dependency set \<open>{a}\<close>, \<open>a\<close> is in review, \<open>b\<close> is the
  only task that depends on \<open>a\<close>, and the output of \<open>b\<close> is empty or a dictionary, the
  transition of \<open>a\<close> to \<^verbatim>\<open>COMPLETE\<close> returns (for every bound of at least 2 on the
  call depth), \<open>b\<close> is \<^verbatim>\<open>IN_PROGRESS\<close> afterwards, and the output of \<open>b\<close> is a
  dictionary that holds the output of \<open>a\<close> under the key \<open>a\<close>.
\<close>

lemma completion_unblocks_dependent:
  assumes A: "map_of (tasks s) a = Some ta" "status ta = PENDING_REVIEW"
    and B: "map_of (tasks s) b = Some tb" "status tb = WAITING"
    and dep: "map_of (dependency_graph s) b = Some [a]"
    and only: "get_blocked_tasks a s = Inr [b]"
    and out: "\<not> truthy (output_val tb) \<or> (\<exists>d. output_val tb = PyDict d)"
  shows "fst (update_task_status (Suc (Suc n)) a COMPLETE reason s) = Inr ()
     \<and> get_task_status b (snd (update_task_status (Suc (Suc n)) a COMPLETE reason s)) = Inr IN_PROGRESS
     \<and> (\<exists>d. map_option output_val (map_of (tasks (snd (update_task_status (Suc (Suc n)) a COMPLETE reason s))) b) = Some (PyDict d)
           \<and> map_of d a = Some (output_val ta))"
proof -
  have ne: "a \<noteq> b" using A B by auto
  define s1 where "s1 = modify_task a (\<lambda>t. t\<lparr>status := COMPLETE\<rparr>) s"
  have s1b: "map_of (tasks s1) b = Some tb" using B ne by (simp add: s1_def map_of_tasks_modify)
  have s1a: "map_of (tasks s1) a = Some (ta\<lparr>status := COMPLETE\<rparr>)" using A by (simp add: s1_def map_of_tasks_modify)
  obtain d sz where res: "propagate_result (transition_step (update_task_status n)) a b s1 = (Inr (), sz)"
      and szb: "map_of (tasks sz) b = Some (tb\<lparr>output_val := PyDict d, status := IN_PROGRESS\<rparr>)"
      and da: "map_of d a = Some (output_val ta)"
    using propagate_result_ready [OF s1b B(2) s1a _ _ out, of "update_task_status n"] dep
    by (auto simp: s1_def)
  have blk: "get_blocked_tasks a s1 = Inr [b]" using only by (simp add: s1_def)
  have "update_task_status (Suc (Suc n)) a COMPLETE reason s
      = (Inr (), emit_task_event a ''STATUS_CHANGED'' sz)"
    using A blk res
    by (simp add: transition_step_def [of "transition_step (update_task_status n)"] status_logic_def s1_def [symmetric])
  with szb da show ?thesis by (simp add: get_task_status_def)
qed

lemma completion_unblocks_dependent_example:
  "fst (update_task_status (Suc (Suc 0)) ''A'' COMPLETE ''verified'' completion_board) = Inr ()
   \<and> get_task_status ''B'' (snd (update_task_status (Suc (Suc 0)) ''A'' COMPLETE ''verified'' completion_board))
       = Inr IN_PROGRESS
   \<and> (\<exists>d. map_option output_val
             (map_of (tasks (snd (update_task_status (Suc (Suc 0)) ''A'' COMPLETE ''verified'' completion_board))) ''B'')
              = Some (PyDict d)
          \<and> map_of d ''A'' = Some (PyStr ''res''))"
  using completion_unblocks_dependent
          [of completion_board "''A''" "(new_entry ''A'' [] PENDING_REVIEW)\<lparr>output_val := PyStr ''res''\<rparr>"
              "''B''" "new_entry ''B'' [''A''] WAITING" 0 "''verified''"]
  by (simp add: completion_board_def board_def new_entry_def get_blocked_tasks_def)

text \<open>
  C5. The claim: with \<open>B\<close> waiting on exactly \<open>A\<close> and \<open>A\<close> in review, the transition
  of \<open>A\<close> to \<^verbatim>\<open>COMPLETE\<close> leaves \<open>B\<close> \<^verbatim>\<open>IN_PROGRESS\<close> with the output of
  \<open>A\<close> in its output map. The loop over the dependents of \<open>A\<close> drives every dependent
  whose dependencies are complete to \<^verbatim>\<open>IN_PROGRESS\<close> without looking at its status.
  On \<open>withdrawn_board\<close> the abandoned dependent \<open>D\<close> comes first: its transition is
  rejected, the exception ends the loop, and \<open>B\<close> stays \<^verbatim>\<open>WAITING\<close> with its output
  untouched. A running dependent (\<open>crowded_board\<close>) does the same, and an output of
  \<open>B\<close> that is a string (\<open>text_output_board\<close>) raises \<^verbatim>\<open>TypeError\<close>.
\<close>

theorem completion_blocked_by_dependent:
  "get_task_status ''A'' withdrawn_board = Inr PENDING_REVIEW
   \<and> get_task_status ''B'' withdrawn_board = Inr WAITING
   \<and> get_task_dependencies ''B'' withdrawn_board = Inr [''A'']
   \<and> fst (update_task_status 10 ''A'' COMPLETE ''verified'' withdrawn_board) = Inl InvalidTransitionError
   \<and> get_task_status ''A'' (snd (update_task_status 10 ''A'' COMPLETE ''verified'' withdrawn_board)) = Inr COMPLETE
   \<and> get_task_status ''B'' (snd (update_task_status 10 ''A'' COMPLETE ''verified'' withdrawn_board)) = Inr WAITING
   \<and> map_option output_val (map_of (tasks (snd (update_task_status 10 ''A'' COMPLETE ''verified'' withdrawn_board))) ''B'')
        = Some PyNone
   \<and> get_task_status ''A'' crowded_board = Inr PENDING_REVIEW
   \<and> get_task_status ''B'' crowded_board = Inr WAITING
   \<and> get_task_dependencies ''B'' crowded_board = Inr [''A'']
   \<and> fst (update_task_status 10 ''A'' COMPLETE ''verified'' crowded_board) = Inl InvalidTransitionError
   \<and> get_task_status ''B'' (snd (update_task_status 10 ''A'' COMPLETE ''verified'' crowded_board)) = Inr WAITING
   \<and> get_task_status ''A'' text_output_board = Inr PENDING_REVIEW
   \<and> get_task_status ''B'' text_output_board = Inr WAITING
   \<and> get_task_dependencies ''B'' text_output_board = Inr [''A'']
   \<and> fst (update_task_status 10 ''A'' COMPLETE ''verified'' text_output_board) = Inl TypeError
   \<and> get_task_status ''B'' (snd (update_task_status 10 ''A'' COMPLETE ''verified'' text_output_board)) = Inr WAITING"
  by code_simp

section \<open>Board consistency\<close>

text \<open>No statement of a transition changes the keys of the store or the graph.\<close>

lemma shape_modify [simp]: "shape (modify_task t f s) = shape s"
  by (simp add: shape_def modify_task_def dom_map_entry)

lemma shape_emit [simp]: "shape (emit_task_event t ty s) = shape s"
  by (simp add: shape_def emit_task_event_def split: option.split)

lemma shape_queue [simp]: "shape (s\<lparr>priority_queue := q\<rparr>) = shape s"
  by (simp add: shape_def)

lemma shape_tasks_update [simp]: "shape (s\<lparr>tasks := ts\<rparr>) = (fst ` set ts, snd (shape s))"
  by (simp add: shape_def)

lemma shape_graph_update [simp]: "shape (s\<lparr>dependency_graph := g\<rparr>) = (fst (shape s), g)"
  by (simp add: shape_def)

lemma board_consistent_shape: "board_consistent s \<longleftrightarrow> shape_ok (shape s)"
  by (simp add: shape_def board_consistent_def shape_ok_def)

lemma shape_for_each:
  assumes "\<And>x s. shape (snd (body x s)) = shape s"
  shows "shape (snd (for_each xs body s)) = shape s"
proof (induction xs arbitrary: s)
  case Nil
  show ?case by simp
next
  case (Cons x xs)
  show ?case
  proof (cases "body x s")
    case (Pair r s')
    with assms [of x s] have s': "shape s' = shape s" by simp
    show ?thesis
    proof (cases r)
      case (Inl e)
      with Pair s' show ?thesis by simp
    next
      case (Inr u)
      with Pair s' Cons.IH [of s'] show ?thesis by simp
    qed
  qed
qed

lemma shape_propagate_result:
  assumes "\<And>t st r s. shape (snd (upd t st r s)) = shape s"
  shows "shape (snd (propagate_result upd a b s)) = shape s"
  using assms
  by (auto simp: propagate_result_def Let_def split: option.splits sum.splits)

lemma shape_status_logic:
  assumes upd: "\<And>t st r s. shape (snd (upd t st r s)) = shape s"
  shows "shape (snd (status_logic upd t new r s)) = shape s"
  by (auto simp: status_logic_def handle_partial_failure_via_def
        escalate_task_via_def Let_def upd shape_for_each shape_propagate_result
      split: option.splits sum.splits)

lemma shape_transition_step:
  assumes upd: "\<And>t st r s. shape (snd (upd t st r s)) = shape s"
  shows "shape (snd (transition_step upd t new r s)) = shape s"
proof -
  have "shape (snd (status_logic upd t new r (modify_task t (\<lambda>x. x\<lparr>status := new\<rparr>) s))) = shape s"
    by (simp add: shape_status_logic [OF upd])
  then show ?thesis
    by (auto simp: transition_step_def split: option.splits sum.splits prod.splits)
qed

lemma shape_update_task_status [simp]:
  "shape (snd (update_task_status n t new r s)) = shape s"
proof (induction n arbitrary: t new r s)
  case 0
  show ?case by simp
next
  case (Suc n)
  show ?case by (simp add: shape_transition_step [of "update_task_status n", OF Suc.IH])
qed


lemma update_task_status_shapeD:
  "update_task_status n t new r s = (x, s') \<Longrightarrow> shape s' = shape s"
  using shape_update_task_status [of n t new r s] by simp

lemma shape_escalate_task [simp]: "shape (snd (escalate_task n t r s)) = shape s"
  by (simp add: escalate_task_def escalate_task_via_def split: option.split)

lemma escalate_task_shapeD: "escalate_task n t r s = (x, s') \<Longrightarrow> shape s' = shape s"
  using shape_escalate_task [of n t r s] by simp

lemma shape_handle_partial_failure [simp]: "shape (snd (handle_partial_failure n t s)) = shape s"
  by (simp add: handle_partial_failure_def handle_partial_failure_via_def split: option.split sum.split)

lemma shape_handle_status_transition [simp]:
  "shape (snd (handle_status_transition n t old new s)) = shape s"
proof -
  have "shape (snd (for_each bs (\<lambda>blocked_id sx.
                   case map_of (tasks sx) blocked_id of
                     None \<Rightarrow> (Inl KeyError, sx)
                   | Some blocked_task \<Rightarrow>
                       (case check_dependencies blocked_id sx of
                          Inl e \<Rightarrow> (Inl e, sx)
                        | Inr ok \<Rightarrow>
                            if ok then update_task_status n blocked_id IN_PROGRESS ''Dependencies completed'' sx
                            else (Inr (), sx))) s)) = shape s" for bs
    by (rule shape_for_each) (simp split: option.split sum.split)
  moreover have "shape (snd (for_each bs (\<lambda>blocked_id.
                   update_task_status n blocked_id ABANDONED ''Dependency abandoned'') s)) = shape s" for bs
    by (rule shape_for_each) simp
  ultimately show ?thesis
    by (simp add: handle_status_transition_def split: option.split sum.split)
qed

lemma shape_handle_iteration_limit_reached [simp]:
  "shape (snd (handle_iteration_limit_reached n t s)) = shape s"
  by (simp add: handle_iteration_limit_reached_def split: option.split)

lemma handle_iteration_limit_reached_shapeD:
  "handle_iteration_limit_reached n t s = (x, s') \<Longrightarrow> shape s' = shape s"
  using shape_handle_iteration_limit_reached [of n t s] by simp

lemma shape_increment_iteration [simp]: "shape (snd (increment_iteration n t s)) = shape s"
  by (auto simp: increment_iteration_def Let_def
      split: option.splits sum.splits prod.splits if_splits
      dest!: handle_iteration_limit_reached_shapeD)

lemma increment_iteration_shapeD:
  "increment_iteration n t s = (x, s') \<Longrightarrow> shape s' = shape s"
  using shape_increment_iteration [of n t s] by simp

lemma shape_request_verification [simp]: "shape (snd (request_verification n t s)) = shape s"
  by (auto simp: request_verification_def Let_def
      split: option.splits sum.splits prod.splits if_splits
      dest!: update_task_status_shapeD)

lemma shape_handle_verification_result [simp]:
  "shape (snd (handle_verification_result n t passed fb s)) = shape s"
  by (auto simp: handle_verification_result_def Let_def
      split: option.splits sum.splits prod.splits if_splits
      dest!: update_task_status_shapeD increment_iteration_shapeD)

lemma shape_handle_feedback [simp]: "shape (snd (handle_feedback n t fb src s)) = shape s"
  by (auto simp: handle_feedback_def Let_def
      split: option.splits sum.splits prod.splits if_splits
      dest!: update_task_status_shapeD escalate_task_shapeD)

lemma shape_update_priority [simp]: "shape (snd (update_priority t p s)) = shape s"
  by (simp add: update_priority_def Let_def)

lemma shape_get_next_priority_task:
  "get_next_priority_task n s = Some y \<Longrightarrow> shape (snd y) = shape s"
proof (erule get_next_priority_task.raw_induct [where P = "\<lambda>n s y. shape (snd y) = shape s", rotated], goal_cases)
  case (1 get n s y)
  have IH: "get n (s\<lparr>priority_queue := q\<rparr>) = Some y \<Longrightarrow> shape (snd y) = shape s" for q
    using 1(1) [of n "s\<lparr>priority_queue := q\<rparr>" y] by simp
  from 1(2) show ?case
    by (auto dest!: IH update_task_status_shapeD
        split: list.splits option.splits if_splits sum.splits prod.splits)
qed


lemma set_alist_update: "x \<in> set (AList.update k v al) \<Longrightarrow> x = (k, v) \<or> x \<in> set al"
  by (induction al) (auto split: if_splits)

lemma set_alist_delete: "set (AList.delete k al) = {p \<in> set al. fst p \<noteq> k}"
  by (induction al) auto

lemma map_of_None_keys: "map_of al k = None \<longleftrightarrow> k \<notin> fst ` set al"
  by (simp add: map_of_eq_None_iff)

text \<open>The two ways in which the store and the graph change.\<close>

lemma shape_ok_insert:
  assumes "shape_ok (K, g)" "set deps \<subseteq> K"
  shows "shape_ok (insert k K, AList.update k (remdups deps) g)"
proof -
  have "set ds \<subseteq> insert k K" if "(j, ds) \<in> set (AList.update k (remdups deps) g)" for j ds
  proof -
    from set_alist_update [OF that] show ?thesis
    proof
      assume "(j, ds) = (k, remdups deps)"
      with assms(2) show ?thesis by auto
    next
      assume "(j, ds) \<in> set g"
      with assms(1) show ?thesis by (fastforce simp: shape_ok_def)
    qed
  qed
  moreover have "insert k K = fst ` set (AList.update k (remdups deps) g)"
    using assms(1) by (simp add: shape_ok_def dom_update)
  ultimately show ?thesis
    unfolding shape_ok_def by (simp only: fst_conv snd_conv) blast
qed

lemma shape_ok_delete:
  assumes "shape_ok (K, g)"
  shows "shape_ok (K - {k}, map (\<lambda>(j, other_deps). (j, removeAll k other_deps)) (AList.delete k g))"
proof -
  have keys: "fst ` set (map (\<lambda>(j, other_deps). (j, removeAll k other_deps)) (AList.delete k g))
                = fst ` set g - {k}"
    by (induction g) auto
  have "set ds \<subseteq> K - {k}"
    if "(j, ds) \<in> set (map (\<lambda>(j, other_deps). (j, removeAll k other_deps)) (AList.delete k g))"
    for j ds
  proof -
    from that obtain ds0 where "(j, ds0) \<in> set g" "ds = removeAll k ds0"
      by (auto simp: set_alist_delete)
    with assms show ?thesis by (fastforce simp: shape_ok_def)
  qed
  moreover have "K - {k} = fst ` set (map (\<lambda>(j, other_deps). (j, removeAll k other_deps)) (AList.delete k g))"
    using assms keys by (simp add: shape_ok_def)
  ultimately show ?thesis
    unfolding shape_ok_def by (simp only: fst_conv snd_conv) blast
qed

lemma consistent_add_task_with:
  assumes "board_consistent s"
  shows "board_consistent (snd (add_task_with cyclic n task s))"
proof -
  let ?i = "id_str task"
  let ?g = "AList.update ?i (remdups (dependencies task)) (dependency_graph s)"
  show ?thesis
  proof (cases "map_of (tasks s) ?i \<noteq> None \<or> (\<exists>d \<in> set (dependencies task). map_of (tasks s) d = None)")
    case True
    with assms show ?thesis by (auto simp: add_task_with_def)
  next
    case False
    then have fresh: "?i \<notin> fst ` set (tasks s)"
      and deps: "set (dependencies task) \<subseteq> fst ` set (tasks s)"
      by (auto simp: map_of_None_keys)
    show ?thesis
    proof (cases "cyclic ?g")
      case True
      have "AList.delete ?i ?g = dependency_graph s"
        using fresh assms by (simp add: delete_update_same board_consistent_def)
      then have "snd (add_task_with cyclic n task s) = s"
        using True False by (simp add: add_task_with_def Let_def)
      with assms show ?thesis by simp
    next
      case nocycle: False
      have "shape (snd (add_task_with cyclic n task s)) = (insert ?i (fst (shape s)), AList.update ?i (remdups (dependencies task)) (snd (shape s)))"
        using False nocycle
        by (auto simp: add_task_with_def Let_def dom_update shape_def [of s]
            split: prod.splits sum.splits dest!: update_task_status_shapeD)
      moreover have "shape_ok (insert ?i (fst (shape s)), AList.update ?i (remdups (dependencies task)) (snd (shape s)))"
        using assms deps by (intro shape_ok_insert) (simp_all add: board_consistent_shape shape_def)
      ultimately show ?thesis by (simp add: board_consistent_shape)
    qed
  qed
qed


lemma consistent_update_dependencies_with:
  assumes "board_consistent s"
  shows "board_consistent (snd (update_dependencies_with cyclic n t new s))"
proof (cases "map_of (tasks s) t")
  case None
  with assms show ?thesis by (simp add: update_dependencies_with_def)
next
  case (Some task0)
  let ?g = "AList.update t (remdups new) (dependency_graph s)"
  show ?thesis
  proof (cases "(\<exists>d \<in> set new. map_of (tasks s) d = None) \<or> cyclic ?g")
    case True
    with Some assms show ?thesis by (auto simp: update_dependencies_with_def)
  next
    case False
    then have deps: "set new \<subseteq> fst ` set (tasks s)" by (auto simp: map_of_None_keys)
    have key: "t \<in> fst ` set (tasks s)" using Some map_of_None_keys [of "tasks s" t] by simp
    have "shape (snd (update_dependencies_with cyclic n t new s))
            = (insert t (fst (shape s)), AList.update t (remdups new) (snd (shape s)))"
      using False Some key
      by (auto simp: update_dependencies_with_def Let_def shape_def [of s] insert_absorb
          split: prod.splits sum.splits dest!: update_task_status_shapeD)
    moreover have "shape_ok (insert t (fst (shape s)), AList.update t (remdups new) (snd (shape s)))"
      using assms deps by (intro shape_ok_insert) (simp_all add: board_consistent_shape shape_def)
    ultimately show ?thesis by (simp add: board_consistent_shape)
  qed
qed

lemma consistent_remove_task:
  assumes "board_consistent s"
  shows "board_consistent (snd (remove_task n t s))"
proof (cases "map_of (tasks s) t")
  case None
  with assms show ?thesis by (simp add: remove_task_def get_blocked_tasks_def)
next
  case (Some task)
  let ?blocked = "map fst (filter (\<lambda>(other_id, deps). t \<in> set deps) (dependency_graph s))"
  obtain r1 s1 where loop: "for_each ?blocked (handle_partial_failure n) s = (r1, s1)"
    by (cases "for_each ?blocked (handle_partial_failure n) s")
  have sh: "shape s1 = shape s"
    using shape_for_each [of "handle_partial_failure n" ?blocked s] loop by simp
  have c1: "board_consistent s1" using assms by (simp add: board_consistent_shape sh)
  have "t \<in> fst ` set (tasks s)" using Some map_of_None_keys [of "tasks s" t] by simp
  then have key: "map_of (dependency_graph s1) t \<noteq> None"
    using sh assms by (simp add: map_of_None_keys shape_def board_consistent_def)
  show ?thesis
  proof (cases r1)
    case (Inl e)
    with Some loop c1 show ?thesis by (simp add: remove_task_def get_blocked_tasks_def)
  next
    case (Inr u)
    have "shape (snd (remove_task n t s))
            = (fst (shape s1) - {t},
               map (\<lambda>(j, other_deps). (j, removeAll t other_deps)) (AList.delete t (snd (shape s1))))"
      using Some loop Inr key
      by (auto simp: remove_task_def get_blocked_tasks_def Let_def shape_def [of s1] set_alist_delete image_iff)
    moreover have "shape_ok (fst (shape s1) - {t},
               map (\<lambda>(j, other_deps). (j, removeAll t other_deps)) (AList.delete t (snd (shape s1))))"
      using c1 by (intro shape_ok_delete) (simp add: board_consistent_shape)
    ultimately show ?thesis by (simp add: board_consistent_shape)
  qed
qed

text \<open>On a consistent board every id that \<^verbatim>\<open>get_task_dependencies\<close> returns is
  stored.\<close>

lemma get_task_dependencies_stored:
  assumes "board_consistent s" "get_task_dependencies t s = Inr deps"
  shows "\<forall>d \<in> set deps. map_of (tasks s) d \<noteq> None"
proof -
  from assms(2) have "map_of (dependency_graph s) t = Some deps"
    by (auto simp: get_task_dependencies_def split: if_splits option.splits)
  then have "(t, deps) \<in> set (dependency_graph s)" by (rule map_of_SomeD)
  with assms(1) have "set deps \<subseteq> fst ` set (tasks s)"
    unfolding board_consistent_def by fastforce
  then show ?thesis by (auto simp: map_of_None_keys)
qed

text \<open>
  The part of the invariant that concerns the store and the graph: the manager built by
  \<^verbatim>\<open>__init__\<close> is consistent, and every operation leaves a consistent board
  consistent, whether it returns or raises. The keys of the task store and of the
  dependency graph are the same set, and every id in a dependency set of the graph is a key
  of the store. For \<^verbatim>\<open>add_task\<close> and \<^verbatim>\<open>update_dependencies\<close> this holds
  whatever the cycle test answers; for \<^verbatim>\<open>get_next_priority_task\<close> it holds whenever
  the call returns.
\<close>

lemma board_consistent_preserved:
  assumes "board_consistent s"
  shows "board_consistent init
     \<and> board_consistent (snd (add_task_with cyclic n task s))
     \<and> board_consistent (snd (add_task n task s))
     \<and> board_consistent (snd (remove_task n t s))
     \<and> board_consistent (snd (update_task_status n t new reason s))
     \<and> board_consistent (snd (update_dependencies_with cyclic n t deps s))
     \<and> board_consistent (snd (update_dependencies n t deps s))
     \<and> board_consistent (snd (update_priority t p s))
     \<and> board_consistent (snd (escalate_task n t reason s))
     \<and> board_consistent (snd (handle_feedback n t fb src s))
     \<and> board_consistent (snd (handle_verification_result n t passed fb s))
     \<and> board_consistent (snd (request_verification n t s))
     \<and> board_consistent (snd (increment_iteration n t s))
     \<and> board_consistent (snd (handle_partial_failure n t s))
     \<and> board_consistent (snd (handle_iteration_limit_reached n t s))
     \<and> board_consistent (snd (handle_status_transition n t old new s))
     \<and> board_consistent (emit_task_event t ty s)
     \<and> (\<forall>y. get_next_priority_task n s = Some y \<longrightarrow> board_consistent (snd y))"
proof -
  have "board_consistent init"
    by (simp add: board_consistent_def init_def)
  then show ?thesis
    using assms consistent_add_task_with [OF assms] consistent_remove_task [OF assms]
      consistent_update_dependencies_with [OF assms]
    by (auto simp: board_consistent_shape add_task_def update_dependencies_def
        dest!: shape_get_next_priority_task)
qed

lemma board_consistent_preserved_example:
  "board_consistent two_running
   \<and> board_consistent (snd (remove_task 3 ''a'' two_running))
   \<and> board_consistent (snd (add_task_with (\<lambda>graph. False) 3 (new_entry ''b'' [''a''] WAITING) two_running))
   \<and> board_consistent (snd (update_dependencies_with (\<lambda>graph. False) 3 ''a'' [''t''] two_running))
   \<and> board_consistent (snd (update_task_status 3 ''a'' PENDING_REVIEW ''done'' two_running))"
proof -
  have h: "board_consistent two_running"
    by (simp add: two_running_def board_def new_entry_def board_consistent_def)
  from board_consistent_preserved
         [OF h, where cyclic = "\<lambda>graph. False" and n = 3 and t = "''a''"
            and task = "new_entry ''b'' [''a''] WAITING" and deps = "[''t'']"
            and new = PENDING_REVIEW and reason = "''done''"]
  show ?thesis using h by simp
qed

text \<open>
  C10. The claim: after every operation the store and the graph have the same keys, and
  every id in the dependency set of a task is a key of the store. The dependencies of a
  task are kept twice, as the list \<^verbatim>\<open>dependencies\<close> of its entry and as its set in
  the graph. \<^verbatim>\<open>update_dependencies\<close> writes both; \<^verbatim>\<open>remove_task\<close> discards
  the removed id from the sets of the graph only. On \<open>completion_board\<close>, which is
  consistent and where \<open>B\<close> lists the stored \<open>A\<close>, removing \<open>A\<close> returns normally and
  leaves the entry of \<open>B\<close> listing \<open>A\<close>, which is no key of the store any more; a later
  \<^verbatim>\<open>handle_partial_failure\<close> of \<open>B\<close> raises \<^verbatim>\<open>KeyError\<close>.
\<close>

theorem remove_task_leaves_dangling_dependency:
  "map fst (tasks completion_board) = [''A'', ''B'']
   \<and> dependency_graph completion_board = [(''A'', []), (''B'', [''A''])]
   \<and> map_option dependencies (map_of (tasks completion_board) ''A'') = Some []
   \<and> map_option dependencies (map_of (tasks completion_board) ''B'') = Some [''A'']
   \<and> fst (remove_task 10 ''A'' completion_board) = Inr ()
   \<and> map fst (tasks (snd (remove_task 10 ''A'' completion_board))) = [''B'']
   \<and> dependency_graph (snd (remove_task 10 ''A'' completion_board)) = [(''B'', [])]
   \<and> get_task_dependencies ''B'' (snd (remove_task 10 ''A'' completion_board)) = Inr []
   \<and> map_option dependencies (map_of (tasks (snd (remove_task 10 ''A'' completion_board))) ''B'') = Some [''A'']
   \<and> get_task_status ''A'' (snd (remove_task 10 ''A'' completion_board)) = Inl KeyError
   \<and> fst (handle_partial_failure 10 ''B'' (snd (remove_task 10 ''A'' completion_board))) = Inl KeyError"
  by code_simp

section \<open>Atomicity of operations\<close>

text \<open>
  C6 as stated fails: an operation that raises after it has begun keeps what it did
  before. \<^verbatim>\<open>escalate_task\<close> on a task in review raises and has emitted its event;
  \<^verbatim>\<open>handle_feedback\<close> on a complete task raises and has appended the feedback;
  \<^verbatim>\<open>update_task_status\<close> to \<^verbatim>\<open>COMPLETE\<close> raises on a running dependent and has
  written the new status.
\<close>

theorem atomicity_counterexample:
  "fst (escalate_task 10 ''t'' ''Conflicting feedback'' review_board) = Inl InvalidTransitionError
   \<and> event_stream review_board = Some []
   \<and> event_stream (snd (escalate_task 10 ''t'' ''Conflicting feedback'' review_board))
       = Some [\<lparr>event_type = ''TASK_ESCALATED'', task_id = ''t''\<rparr>]
   \<and> fst (handle_feedback 10 ''t'' approve ''verifier'' done_board) = Inl InvalidTransitionError
   \<and> map_option verification_feedback (map_of (tasks done_board) ''t'') = Some []
   \<and> map_option verification_feedback (map_of (tasks (snd (handle_feedback 10 ''t'' approve ''verifier'' done_board))) ''t'')
       = Some [[(''verdict'', PyStr ''approve''), (''source'', PyStr ''verifier'')]]
   \<and> fst (update_task_status 10 ''A'' COMPLETE ''verified'' crowded_board) = Inl InvalidTransitionError
   \<and> get_task_status ''A'' crowded_board = Inr PENDING_REVIEW
   \<and> get_task_status ''A'' (snd (update_task_status 10 ''A'' COMPLETE ''verified'' crowded_board)) = Inr COMPLETE"
  by code_simp

text \<open>
  C6, amended. An operation that is rejected by one of its own entry checks (unknown task
  id, requested transition not in the table, verification result for a task that is not in
  review, dependency that does not exist, cycle test that finds a cycle, priority out of
  range, id already stored) raises and returns the manager exactly as it was: store, graph,
  feedback and event stream. \<open>cyclic\<close> is the answer of the cycle test.
\<close>

theorem rejected_at_entry_is_atomic:
  "(map_of (tasks s) t = None \<longrightarrow>
        update_task_status (Suc n) t new reason s = (Inl KeyError, s)
      \<and> escalate_task n t reason s = (Inl KeyError, s)
      \<and> handle_feedback n t fb src s = (Inl KeyError, s)
      \<and> handle_verification_result n t passed fb s = (Inl KeyError, s)
      \<and> request_verification n t s = (Inl KeyError, s)
      \<and> increment_iteration n t s = (Inl KeyError, s)
      \<and> update_dependencies_with cyclic n t deps s = (Inl KeyError, s)
      \<and> update_priority t p s = (Inl KeyError, s)
      \<and> remove_task n t s = (Inl KeyError, s))
   \<and> (map_of (tasks s) t = Some e \<longrightarrow>
        (new \<notin> set (VALID_TRANSITIONS (status e)) \<longrightarrow>
           update_task_status (Suc n) t new reason s = (Inl InvalidTransitionError, s))
      \<and> (status e \<noteq> PENDING_REVIEW \<longrightarrow>
           handle_verification_result n t passed fb s = (Inl StateError, s))
      \<and> ((\<exists>d \<in> set deps. map_of (tasks s) d = None) \<longrightarrow>
           update_dependencies_with cyclic n t deps s = (Inl ValueError, s))
      \<and> ((\<forall>d \<in> set deps. map_of (tasks s) d \<noteq> None)
           \<and> cyclic (AList.update t (remdups deps) (dependency_graph s)) \<longrightarrow>
           update_dependencies_with cyclic n t deps s = (Inl CircularDependencyError, s))
      \<and> (\<not> (1 \<le> p \<and> p \<le> 5) \<longrightarrow> update_priority t p s = (Inl ValueError, s))
      \<and> (id_str task = t \<longrightarrow> add_task_with cyclic n task s = (Inl ValueError, s)))
   \<and> ((\<exists>d \<in> set (dependencies task). map_of (tasks s) d = None) \<longrightarrow>
        add_task_with cyclic n task s = (Inl ValueError, s))
   \<and> (board_consistent s \<and> map_of (tasks s) (id_str task) = None
        \<and> (\<forall>d \<in> set (dependencies task). map_of (tasks s) d \<noteq> None)
        \<and> cyclic (AList.update (id_str task) (remdups (dependencies task)) (dependency_graph s)) \<longrightarrow>
        add_task_with cyclic n task s = (Inl CircularDependencyError, s))"
proof -
  have cyc: "add_task_with cyclic n task s = (Inl CircularDependencyError, s)"
    if "board_consistent s" "map_of (tasks s) (id_str task) = None"
       "\<forall>d \<in> set (dependencies task). map_of (tasks s) d \<noteq> None"
       "cyclic (AList.update (id_str task) (remdups (dependencies task)) (dependency_graph s))"
  proof -
    have "id_str task \<notin> fst ` set (dependency_graph s)"
      using that(1,2) by (simp add: board_consistent_def map_of_None_keys)
    then have "AList.delete (id_str task)
        (AList.update (id_str task) (remdups (dependencies task)) (dependency_graph s)) = dependency_graph s"
      by (simp add: delete_update_same)
    with that show ?thesis by (auto simp: add_task_with_def Let_def)
  qed
  show ?thesis
    using cyc
    by (auto simp: transition_step_def escalate_task_def escalate_task_via_def handle_feedback_def
        handle_verification_result_def request_verification_def increment_iteration_def
        update_dependencies_with_def update_priority_def remove_task_def
        get_blocked_tasks_def add_task_with_def)
qed

theorem rejected_at_entry_is_atomic_witness:
  "update_task_status (Suc 0) ''z'' COMPLETE ''done'' two_running = (Inl KeyError, two_running)
   \<and> escalate_task 3 ''z'' ''conflict'' two_running = (Inl KeyError, two_running)
   \<and> update_task_status (Suc 0) ''t'' COMPLETE ''done'' two_running = (Inl InvalidTransitionError, two_running)
   \<and> handle_verification_result 3 ''t'' True [] two_running = (Inl StateError, two_running)
   \<and> update_dependencies 3 ''t'' [''z''] two_running = (Inl ValueError, two_running)
   \<and> update_dependencies 3 ''t'' [''a''] two_running = (Inl CircularDependencyError, two_running)
   \<and> update_priority ''t'' 9 two_running = (Inl ValueError, two_running)
   \<and> add_task 3 (new_entry ''t'' [] WAITING) two_running = (Inl ValueError, two_running)
   \<and> add_task 3 (new_entry ''b'' [''z''] WAITING) two_running = (Inl ValueError, two_running)
   \<and> add_task 3 (new_entry ''b'' [''a''] WAITING) two_running = (Inl CircularDependencyError, two_running)"
proof -
  have h: "board_consistent two_running"
    by (simp add: two_running_def board_def new_entry_def board_consistent_def)
  have t: "map_of (tasks two_running) ''t'' = Some (new_entry ''t'' [] IN_PROGRESS)"
    and a: "map_of (tasks two_running) ''a'' \<noteq> None"
    and z: "map_of (tasks two_running) ''z'' = None"
    and b: "map_of (tasks two_running) ''b'' = None"
    by (simp_all add: two_running_def board_def)
  from rejected_at_entry_is_atomic
         [where s = two_running and t = "''z''" and n = 0 and new = COMPLETE and reason = "''done''"]
       z
  have 1: "update_task_status (Suc 0) ''z'' COMPLETE ''done'' two_running = (Inl KeyError, two_running)"
    by simp
  from rejected_at_entry_is_atomic
         [where s = two_running and t = "''z''" and n = 3 and reason = "''conflict''"]
       z
  have 2: "escalate_task 3 ''z'' ''conflict'' two_running = (Inl KeyError, two_running)"
    by simp
  from rejected_at_entry_is_atomic
         [where s = two_running and t = "''t''" and e = "new_entry ''t'' [] IN_PROGRESS" and n = 0
            and new = COMPLETE and reason = "''done''"]
       t
  have 3: "update_task_status (Suc 0) ''t'' COMPLETE ''done'' two_running = (Inl InvalidTransitionError, two_running)"
    by (simp add: new_entry_def)
  from rejected_at_entry_is_atomic
         [where s = two_running and t = "''t''" and e = "new_entry ''t'' [] IN_PROGRESS" and n = 3
            and passed = True and fb = "[]" and deps = "[''z'']" and p = 9
            and task = "new_entry ''t'' [] WAITING" and cyclic = "\<lambda>graph. True"]
       t z
  have 4: "handle_verification_result 3 ''t'' True [] two_running = (Inl StateError, two_running)
      \<and> update_dependencies 3 ''t'' [''z''] two_running = (Inl ValueError, two_running)
      \<and> update_priority ''t'' 9 two_running = (Inl ValueError, two_running)
      \<and> add_task 3 (new_entry ''t'' [] WAITING) two_running = (Inl ValueError, two_running)"
    by (simp add: new_entry_def add_task_def update_dependencies_def)
  from rejected_at_entry_is_atomic
         [where s = two_running and t = "''t''" and e = "new_entry ''t'' [] IN_PROGRESS" and n = 3
            and deps = "[''a'']" and task = "new_entry ''b'' [''z''] WAITING" and cyclic = "\<lambda>graph. True"]
       t a z
  have 5: "update_dependencies 3 ''t'' [''a''] two_running = (Inl CircularDependencyError, two_running)
      \<and> add_task 3 (new_entry ''b'' [''z''] WAITING) two_running = (Inl ValueError, two_running)"
    by (simp add: new_entry_def add_task_def update_dependencies_def)
  from rejected_at_entry_is_atomic
         [where s = two_running and n = 3 and task = "new_entry ''b'' [''a''] WAITING" and cyclic = "\<lambda>graph. True"]
       h a b
  have 6: "add_task 3 (new_entry ''b'' [''a''] WAITING) two_running = (Inl CircularDependencyError, two_running)"
    by (simp add: new_entry_def add_task_def)
  from 1 2 3 4 5 6 show ?thesis by simp
qed


section \<open>Dependency update\<close>

text \<open>
  \<^verbatim>\<open>update_dependencies\<close> never returns normally, and for no answer of the cycle
  test does a running task end \<^verbatim>\<open>WAITING\<close>.
\<close>

lemma update_dependencies_never_succeeds: "fst (update_dependencies n t deps s) \<noteq> Inr ()"
  by (simp add: update_dependencies_def update_dependencies_with_def split: option.split)

lemma update_dependencies_with_keeps_running:
  assumes "map_of (tasks s) t = Some e" "status e = IN_PROGRESS"
  shows "get_task_status t (snd (update_dependencies_with cyclic n t deps s)) = Inr IN_PROGRESS"
proof -
  have "snd (update_task_status n t WAITING r s') = s'" for r s'
    using transition_to_WAITING_rejected [of n t r s'] by simp
  then have w: "update_task_status n t WAITING r s' = (x, s'') \<Longrightarrow> s'' = s'" for r s' x s''
    by (metis snd_conv)
  show ?thesis
    using assms
    by (auto simp: update_dependencies_with_def Let_def get_task_status_def map_of_tasks_modify
        split: prod.splits sum.splits dest!: w)
qed

text \<open>
  C7. The claim: a replacement dependency set whose ids exist and that keeps the graph
  acyclic is accepted, and an \<^verbatim>\<open>IN_PROGRESS\<close> task whose new set is not satisfied
  ends \<^verbatim>\<open>WAITING\<close>. On the code no call of \<^verbatim>\<open>update_dependencies\<close> returns
  normally. When the running task \<open>t\<close> is given the running task \<open>a\<close> as its only
  dependency, the call raises \<^verbatim>\<open>CircularDependencyError\<close> and replaces nothing. Were
  the cycle test to answer that there is no cycle, the set would be replaced and the call
  would raise \<^verbatim>\<open>InvalidTransitionError\<close>, the table having no edge from
  \<^verbatim>\<open>IN_PROGRESS\<close> to \<^verbatim>\<open>WAITING\<close>; the task stays \<^verbatim>\<open>IN_PROGRESS\<close>.
\<close>

theorem update_dependencies_rejects_acyclic:
  "fst (update_dependencies n t deps s) \<noteq> Inr ()
   \<and> update_dependencies 10 ''t'' [''a''] two_running = (Inl CircularDependencyError, two_running)
   \<and> fst (update_dependencies_with (\<lambda>graph. False) 10 ''t'' [''a''] two_running)
       = Inl InvalidTransitionError
   \<and> map_of (dependency_graph (snd (update_dependencies_with (\<lambda>graph. False) 10 ''t'' [''a''] two_running))) ''t''
       = Some [''a'']
   \<and> get_task_status ''t'' (snd (update_dependencies_with (\<lambda>graph. False) 10 ''t'' [''a''] two_running))
       = Inr IN_PROGRESS"
proof -
  have "update_dependencies 10 ''t'' [''a''] two_running = (Inl CircularDependencyError, two_running)
   \<and> fst (update_dependencies_with (\<lambda>graph. False) 10 ''t'' [''a''] two_running)
       = Inl InvalidTransitionError
   \<and> map_of (dependency_graph (snd (update_dependencies_with (\<lambda>graph. False) 10 ''t'' [''a''] two_running))) ''t''
       = Some [''a'']
   \<and> get_task_status ''t'' (snd (update_dependencies_with (\<lambda>graph. False) 10 ''t'' [''a''] two_running))
       = Inr IN_PROGRESS"
    by code_simp
  with update_dependencies_never_succeeds [of n t deps s] show ?thesis by blast
qed

section \<open>Task creation\<close>

text \<open>
  \<^verbatim>\<open>add_task\<close> never returns normally, and for no answer of the cycle test is a
  task that has dependencies added without an exception.
\<close>

lemma add_task_never_succeeds: "fst (add_task n task s) \<noteq> Inr ()"
  by (simp add: add_task_def add_task_with_def Let_def)

lemma add_task_with_dependencies_fails:
  assumes "dependencies task \<noteq> []"
  shows "fst (add_task_with cyclic n task s) \<noteq> Inr ()"
proof -
  have w: "update_task_status n t WAITING r s' = (Inr (), s'') \<Longrightarrow> False" for t r s' s''
    using transition_to_WAITING_rejected [of n t r s'] by simp
  show ?thesis
    using assms
    by (auto simp: add_task_with_def Let_def split: prod.splits sum.splits dest!: w)
qed

text \<open>
  C8. The claim: a fresh task whose dependencies exist and that closes no cycle is added,
  \<^verbatim>\<open>WAITING\<close> if it has dependencies and \<^verbatim>\<open>IN_PROGRESS\<close> otherwise. On the code
  no call of \<^verbatim>\<open>add_task\<close> returns normally. For the fresh task \<open>b\<close>, with or
  without the dependency \<open>a\<close>, the call raises \<^verbatim>\<open>CircularDependencyError\<close> and the
  store is as before. Were the cycle test to answer that there is no cycle, \<open>b\<close> with the
  dependency \<open>a\<close> would be stored and the call would raise
  \<^verbatim>\<open>InvalidTransitionError\<close>, the table having no edge into \<^verbatim>\<open>WAITING\<close>.
\<close>

theorem add_task_rejects_fresh:
  "fst (add_task n task s) \<noteq> Inr ()
   \<and> add_task 10 (new_entry ''b'' [''a''] WAITING) two_running = (Inl CircularDependencyError, two_running)
   \<and> add_task 10 (new_entry ''b'' [] WAITING) two_running = (Inl CircularDependencyError, two_running)
   \<and> fst (add_task_with (\<lambda>graph. False) 10 (new_entry ''b'' [''a''] WAITING) two_running)
       = Inl InvalidTransitionError
   \<and> fst (add_task_with (\<lambda>graph. False) 10 (new_entry ''b'' [''a''] IN_PROGRESS) two_running)
       = Inl InvalidTransitionError"
proof -
  have "add_task 10 (new_entry ''b'' [''a''] WAITING) two_running = (Inl CircularDependencyError, two_running)
   \<and> add_task 10 (new_entry ''b'' [] WAITING) two_running = (Inl CircularDependencyError, two_running)
   \<and> fst (add_task_with (\<lambda>graph. False) 10 (new_entry ''b'' [''a''] WAITING) two_running)
       = Inl InvalidTransitionError
   \<and> fst (add_task_with (\<lambda>graph. False) 10 (new_entry ''b'' [''a''] IN_PROGRESS) two_running)
       = Inl InvalidTransitionError"
    by code_simp
  with add_task_never_succeeds [of n task s] show ?thesis by blast
qed

section \<open>Readiness scheduler\<close>

text \<open>On both boards one round of the loop pops the head of the queue, finds its task
  neither waiting nor running, pushes it back and is where it started.\<close>

lemma sched_board_queue: "priority_queue sched_board = [(1, ''a''), (2, ''b'')]"
  by (simp add: sched_board_def board_def new_entry_def heapify_def item_le_def)

lemma sched_board_head:
  "map_of (tasks sched_board) ''a'' = Some ((new_entry ''a'' [] PENDING_REVIEW)\<lparr>priority := 1\<rparr>)"
  by (simp add: sched_board_def board_def)

lemma sched_board_pushed: "sched_board\<lparr>priority_queue := [(1, ''a''), (2, ''b'')]\<rparr> = sched_board"
  by (simp add: sched_board_def board_def new_entry_def heapify_def item_le_def)

lemma sched_board_stuck: "get_next_priority_task m s = Some y \<Longrightarrow> s \<noteq> sched_board"
  apply (erule get_next_priority_task.raw_induct [where P = "\<lambda>n s y. s \<noteq> sched_board", rotated])
  apply (rule notI)
  apply (simp add: sched_board_queue sched_board_head sched_board_pushed new_entry_def item_le_def)
  apply blast
  done

lemma idle_board_queue: "priority_queue idle_board = [(5, ''a'')]"
  by (simp add: idle_board_def board_def new_entry_def heapify_def)

lemma idle_board_head: "map_of (tasks idle_board) ''a'' = Some (new_entry ''a'' [] COMPLETE)"
  by (simp add: idle_board_def board_def)

lemma idle_board_pushed: "idle_board\<lparr>priority_queue := [(5, ''a'')]\<rparr> = idle_board"
  by (simp add: idle_board_def board_def new_entry_def heapify_def)

lemma idle_board_stuck: "get_next_priority_task m s = Some y \<Longrightarrow> s \<noteq> idle_board"
  apply (erule get_next_priority_task.raw_induct [where P = "\<lambda>n s y. s \<noteq> idle_board", rotated])
  apply (rule notI)
  apply (simp add: idle_board_queue idle_board_head idle_board_pushed new_entry_def)
  apply blast
  done

text \<open>
  C9. The claim: the scheduler returns the ready task of lowest priority value, and
  returns \<^verbatim>\<open>None\<close> when no task is ready. On the code a task that is not ready is
  pushed back inside the loop that pops it, so the loop pops it again: on \<open>sched_board\<close>
  the running task \<open>b\<close> is never returned, on \<open>idle_board\<close> \<^verbatim>\<open>None\<close> is never
  returned; in both cases the call does not return at all.
\<close>

theorem get_next_priority_task_diverges:
  "get_task_status ''b'' sched_board = Inr IN_PROGRESS
   \<and> get_next_priority_task n sched_board = None
   \<and> get_next_priority_task n idle_board = None"
proof -
  have "get_task_status ''b'' sched_board = Inr IN_PROGRESS"
    by (simp add: get_task_status_def sched_board_def board_def new_entry_def)
  moreover have "get_next_priority_task n sched_board = None"
    using sched_board_stuck [of n sched_board]
    by (cases "get_next_priority_task n sched_board") auto
  moreover have "get_next_priority_task n idle_board = None"
    using idle_board_stuck [of n idle_board]
    by (cases "get_next_priority_task n idle_board") auto
  ultimately show ?thesis by simp
qed

end
